theory Spec2Isabelle
  imports Complex_Main
begin

section \<open>The watercolour simulation core of FluidCanvas.tsx\<close>

text \<open>
  The development embeds the three procedures of \<^verbatim>\<open>src/components/FluidCanvas.tsx\<close>
  that own the simulation grid: \<^verbatim>\<open>applyBrush\<close> (brush stamping), \<^verbatim>\<open>updateSimulation\<close>
  (the transport sweep) and \<^verbatim>\<open>render\<close> (the compositor), together with the index helper
  \<^verbatim>\<open>idx\<close>.

  Numbers: the source computes in IEEE doubles and stores the grid in \<^verbatim>\<open>Float32Array\<close>s.
  The embedding computes in exact real arithmetic, so every statement below is a statement
  about the update rules read as exact arithmetic; rounding on store is not modelled.
  The only division whose divisor is not a constant divides by the running water value of
  the cell being processed (the stamp divides by the squared radius, which is at least 1);
  lemma \<open>visit_divisor_positive\<close> shows that this divisor is strictly positive whenever a
  transfer happens, as long as the budget does not exceed the running value, which
  \<open>flowInv\<close> maintains for a diffusion speed in \<open>[0, 1]\<close>.

  Arrays: the five typed arrays have the fixed length \<open>SIM_W * SIM_H\<close> and are only ever
  indexed by \<open>y * SIM_W + x\<close> with \<open>0 \<le> x < SIM_W\<close> and \<open>0 \<le> y < SIM_H\<close>; they are modelled
  as stores from the index to the value, and the cells of the grid are the indices in
  \<open>cells\<close>.
\<close>

subsection \<open>Data model (types.ts)\<close>

datatype ToolType = BRUSH | WATER | DRY | ERASER | BLOW

record BrushSettings =
  brushSize :: real
  pressure :: real
  waterLoad :: real
  pigmentLoad :: real

datatype PaperTexture = smooth | rough | cold_press

record SimulationSettings =
  evaporationRate :: real
  diffusionSpeed :: real
  gravityX :: real
  gravityY :: real
  paperTexture :: PaperTexture
  paused :: bool
  showWetness :: bool

record RGB =
  rgb_r :: real
  rgb_g :: real
  rgb_b :: real

text \<open>The five arrays held by the component (\<^verbatim>\<open>waterMap\<close>, \<^verbatim>\<open>pigmentR/G/B\<close>, \<^verbatim>\<open>wetnessMap\<close>).\<close>

record grid =
  waterMap :: "int \<Rightarrow> real"
  wetnessMap :: "int \<Rightarrow> real"
  pigmentR :: "int \<Rightarrow> real"
  pigmentG :: "int \<Rightarrow> real"
  pigmentB :: "int \<Rightarrow> real"

definition SIM_W :: int where
  "SIM_W = 400"

definition SIM_H :: int where
  "SIM_H = 300"

definition cells :: "int set" where
  "cells = {0 ..< SIM_W * SIM_H}"

text \<open>A freshly allocated typed array holds zeros.\<close>

definition emptyGrid :: grid where
  "emptyGrid = \<lparr> waterMap = (\<lambda>_. 0), wetnessMap = (\<lambda>_. 0), pigmentR = (\<lambda>_. 0),
                 pigmentG = (\<lambda>_. 0), pigmentB = (\<lambda>_. 0) \<rparr>"

text \<open>A grid whose cells all hold the same five values.\<close>

definition uniformGrid :: "real \<Rightarrow> real \<Rightarrow> real \<Rightarrow> real \<Rightarrow> real \<Rightarrow> grid" where
  "uniformGrid w wet r g b =
     \<lparr> waterMap = (\<lambda>_. w), wetnessMap = (\<lambda>_. wet), pigmentR = (\<lambda>_. r),
       pigmentG = (\<lambda>_. g), pigmentB = (\<lambda>_. b) \<rparr>"

subsection \<open>Index helper\<close>

definition idx :: "int \<Rightarrow> int \<Rightarrow> int" where
  "idx x y =
     (let x1 = (if x < 0 then 0 else x);
          x2 = (if x1 \<ge> SIM_W then SIM_W - 1 else x1);
          y1 = (if y < 0 then 0 else y);
          y2 = (if y1 \<ge> SIM_H then SIM_H - 1 else y1)
      in y2 * SIM_W + x2)"

subsection \<open>Brush stamping (applyBrush)\<close>

text \<open>The body of the two nested loops, for the candidate cell \<open>(cx, cy)\<close>.\<close>

definition stampCell ::
  "ToolType \<Rightarrow> RGB \<Rightarrow> BrushSettings \<Rightarrow> int \<Rightarrow> int \<Rightarrow> real \<Rightarrow> int \<Rightarrow> int \<Rightarrow> grid \<Rightarrow> grid" where
  "stampCell activeTool color bs simX simY rSq cy cx gr =
     (let distSq = real_of_int ((cx - simX) ^ 2 + (cy - simY) ^ 2) in
      if distSq \<le> rSq then
        let i = cy * SIM_W + cx;
            falloff = 1 - distSq / rSq;
            amount = falloff * pressure bs
        in (case activeTool of
              BRUSH \<Rightarrow>
                let pLoad = pigmentLoad bs / 100;
                    alpha = amount * pLoad * 0.5
                in gr\<lparr> waterMap := (waterMap gr)(i := min 10 (waterMap gr i + amount * (waterLoad bs / 20))),
                       wetnessMap := (wetnessMap gr)(i := 1),
                       pigmentR := (pigmentR gr)(i := pigmentR gr i * (1 - alpha) + rgb_r color * alpha),
                       pigmentG := (pigmentG gr)(i := pigmentG gr i * (1 - alpha) + rgb_g color * alpha),
                       pigmentB := (pigmentB gr)(i := pigmentB gr i * (1 - alpha) + rgb_b color * alpha) \<rparr>
            | WATER \<Rightarrow>
                gr\<lparr> waterMap := (waterMap gr)(i := min 10 (waterMap gr i + amount * (waterLoad bs / 10))),
                    wetnessMap := (wetnessMap gr)(i := 1) \<rparr>
            | DRY \<Rightarrow>
                gr\<lparr> waterMap := (waterMap gr)(i := max 0 (waterMap gr i - amount * 2)),
                    wetnessMap := (wetnessMap gr)(i := max 0 (wetnessMap gr i - amount * 2)) \<rparr>
            | ERASER \<Rightarrow>
                let eraseStr = amount * 0.5
                in gr\<lparr> pigmentR := (pigmentR gr)(i := pigmentR gr i * (1 - eraseStr)),
                       pigmentG := (pigmentG gr)(i := pigmentG gr i * (1 - eraseStr)),
                       pigmentB := (pigmentB gr)(i := pigmentB gr i * (1 - eraseStr)),
                       waterMap := (waterMap gr)(i := waterMap gr i * (1 - eraseStr)) \<rparr>
            | BLOW \<Rightarrow> gr)
      else gr)"

text \<open>
  The stamp proper: everything of \<^verbatim>\<open>applyBrush\<close> after the simulation coordinates
  \<open>simX\<close>, \<open>simY\<close> and the radius \<open>simRadius\<close> are known. The loops run over
  \<open>startY \<le> cy < endY\<close> and \<open>startX \<le> cx < endX\<close>.
\<close>

definition stamp ::
  "ToolType \<Rightarrow> RGB \<Rightarrow> BrushSettings \<Rightarrow> int \<Rightarrow> int \<Rightarrow> real \<Rightarrow> grid \<Rightarrow> grid" where
  "stamp activeTool color bs simX simY simRadius gr =
     (let rSq = simRadius * simRadius;
          startX = max 0 \<lfloor>real_of_int simX - simRadius\<rfloor>;
          endX = min SIM_W \<lceil>real_of_int simX + simRadius\<rceil>;
          startY = max 0 \<lfloor>real_of_int simY - simRadius\<rfloor>;
          endY = min SIM_H \<lceil>real_of_int simY + simRadius\<rceil>
      in fold (\<lambda>cy. fold (\<lambda>cx. stampCell activeTool color bs simX simY rSq cy cx)
                           [startX .. endX - 1])
              [startY .. endY - 1] gr)"

text \<open>The bounding rectangle of the canvas element, as \<^verbatim>\<open>getBoundingClientRect\<close> returns it.\<close>

record DOMRect =
  rect_left :: real
  rect_top :: real
  rect_width :: real
  rect_height :: real

text \<open>
  \<^verbatim>\<open>applyBrush(x, y)\<close>: \<open>rect\<close> is \<open>None\<close> when the canvas is not mounted, and the
  procedure then returns without touching the grid. \<open>width\<close> is the component's
  \<^verbatim>\<open>width\<close> property. The quotients assume a rectangle and a width that are not zero.
\<close>

definition applyBrush ::
  "ToolType \<Rightarrow> RGB \<Rightarrow> BrushSettings \<Rightarrow> real \<Rightarrow> DOMRect option \<Rightarrow> real \<Rightarrow> real \<Rightarrow> grid \<Rightarrow> grid" where
  "applyBrush activeTool color bs width rect x y gr =
     (case rect of
        None \<Rightarrow> gr
      | Some rc \<Rightarrow>
          let relX = (x - rect_left rc) / rect_width rc;
              relY = (y - rect_top rc) / rect_height rc;
              simX = \<lfloor>relX * real_of_int SIM_W\<rfloor>;
              simY = \<lfloor>relY * real_of_int SIM_H\<rfloor>;
              simRadius = max 1 ((brushSize bs / width) * real_of_int SIM_W)
          in stamp activeTool color bs simX simY simRadius gr)"

subsection \<open>Transport step (updateSimulation)\<close>

text \<open>
  The state the \<^verbatim>\<open>forEach\<close> callback works on: the arrays and the two captured locals
  \<^verbatim>\<open>amountToFlow\<close> and \<^verbatim>\<open>totalWater\<close>.
\<close>

record flowState =
  fs_grid :: grid
  amountToFlow :: real
  totalWater :: real

text \<open>
  The callback, for the cell \<open>i\<close> and one neighbour entry \<open>(n, bias)\<close>. The writes happen
  in the order of the source: \<^verbatim>\<open>wm[i] -= flow\<close> before \<^verbatim>\<open>wm[n.idx] += flow\<close>, and the
  three pigment flows are read before any pigment write.
\<close>

definition visit :: "int \<Rightarrow> int \<times> real \<Rightarrow> flowState \<Rightarrow> flowState" where
  "visit i nb st =
     (let n = fst nb; bias = snd nb; gr = fs_grid st in
      if amountToFlow st \<le> 0 then st
      else
        let neighborWater = waterMap gr n;
            gradient = (totalWater st - neighborWater) + (bias * 5)
        in if gradient > 0 then
             let flow = min (amountToFlow st) (gradient * 0.1)
             in if flow > 0.001 then
                  let wm1 = (waterMap gr)(i := waterMap gr i - flow);
                      wm2 = wm1(n := wm1 n + flow);
                      ratio = flow / totalWater st;
                      pFlowR = pigmentR gr i * ratio;
                      pFlowG = pigmentG gr i * ratio;
                      pFlowB = pigmentB gr i * ratio;
                      pr1 = (pigmentR gr)(i := pigmentR gr i - pFlowR);
                      pg1 = (pigmentG gr)(i := pigmentG gr i - pFlowG);
                      pb1 = (pigmentB gr)(i := pigmentB gr i - pFlowB);
                      pr2 = pr1(n := pr1 n + pFlowR);
                      pg2 = pg1(n := pg1 n + pFlowG);
                      pb2 = pb1(n := pb1 n + pFlowB)
                  in \<lparr> fs_grid = gr\<lparr> waterMap := wm2, wetnessMap := (wetnessMap gr)(n := 1),
                                      pigmentR := pr2, pigmentG := pg2, pigmentB := pb2 \<rparr>,
                       amountToFlow = amountToFlow st - flow,
                       totalWater = totalWater st - flow \<rparr>
                else st
           else st)"

text \<open>The neighbour table built for the cell \<open>(x, y)\<close>, in the order of the array literal.\<close>

definition neighbors :: "SimulationSettings \<Rightarrow> int \<Rightarrow> int \<Rightarrow> (int \<times> real) list" where
  "neighbors ss x y =
     [ (idx (x + 1) y, - gravityX ss),
       (idx (x - 1) y, gravityX ss),
       (idx x (y + 1), gravityY ss),
       (idx x (y - 1), - gravityY ss) ]"

text \<open>The body of the sweep for the cell \<open>(x, y)\<close>.\<close>

definition cellStep :: "SimulationSettings \<Rightarrow> int \<Rightarrow> int \<Rightarrow> grid \<Rightarrow> grid" where
  "cellStep ss y x gr =
     (let i = y * SIM_W + x in
      if waterMap gr i \<le> 0.01 then gr
      else
        let w1 = max 0 (waterMap gr i - evaporationRate ss);
            g1 = gr\<lparr> waterMap := (waterMap gr)(i := w1) \<rparr>
        in if w1 \<le> 0 then g1\<lparr> wetnessMap := (wetnessMap g1)(i := 0) \<rparr>
           else
             let st0 = \<lparr> fs_grid = g1, amountToFlow = w1 * diffusionSpeed ss, totalWater = w1 \<rparr>
             in fs_grid (fold (visit i) (neighbors ss x y) st0))"

definition updateSimulation :: "SimulationSettings \<Rightarrow> grid \<Rightarrow> grid" where
  "updateSimulation ss gr =
     (if paused ss then gr
      else fold (\<lambda>y. fold (\<lambda>x. cellStep ss y x) [0 .. SIM_W - 1]) [0 .. SIM_H - 1] gr)"

subsection \<open>Compositor (render)\<close>






subsection \<open>Default settings (constants.ts, App)\<close>

definition DEFAULT_BRUSH :: BrushSettings where
  "DEFAULT_BRUSH = \<lparr> brushSize = 20, pressure = 0.5, waterLoad = 60, pigmentLoad = 80 \<rparr>"


text \<open>The initial colour of the application, \<^verbatim>\<open>{ r: 40, g: 150, b: 250 }\<close>.\<close>

definition defaultColor :: RGB where
  "defaultColor = \<lparr> rgb_r = 40, rgb_g = 150, rgb_b = 250 \<rparr>"


subsection \<open>Notions used by the statements\<close>

text \<open>The five values of one cell: water, wetness and the three pigment channels.\<close>

type_synonym cellValues = "real \<times> real \<times> real \<times> real \<times> real"

definition cellOf :: "grid \<Rightarrow> int \<Rightarrow> cellValues" where
  "cellOf gr i = (waterMap gr i, wetnessMap gr i, pigmentR gr i, pigmentG gr i, pigmentB gr i)"

text \<open>
  The tool rule of \<open>stampCell\<close> read as a function on the values of the cell it writes
  (lemma \<open>stampCell_hit\<close> relates the two).
\<close>

definition stampRule :: "ToolType \<Rightarrow> RGB \<Rightarrow> BrushSettings \<Rightarrow> real \<Rightarrow> cellValues \<Rightarrow> cellValues" where
  "stampRule activeTool color bs amount c =
     (case c of (w, wet, r, g, b) \<Rightarrow>
        (case activeTool of
           BRUSH \<Rightarrow>
             (min 10 (w + amount * (waterLoad bs / 20)), 1,
              r * (1 - amount * (pigmentLoad bs / 100) * 0.5) + rgb_r color * (amount * (pigmentLoad bs / 100) * 0.5),
              g * (1 - amount * (pigmentLoad bs / 100) * 0.5) + rgb_g color * (amount * (pigmentLoad bs / 100) * 0.5),
              b * (1 - amount * (pigmentLoad bs / 100) * 0.5) + rgb_b color * (amount * (pigmentLoad bs / 100) * 0.5))
         | WATER \<Rightarrow> (min 10 (w + amount * (waterLoad bs / 10)), 1, r, g, b)
         | DRY \<Rightarrow> (max 0 (w - amount * 2), max 0 (wet - amount * 2), r, g, b)
         | ERASER \<Rightarrow>
             (w * (1 - amount * 0.5), wet, r * (1 - amount * 0.5), g * (1 - amount * 0.5),
              b * (1 - amount * 0.5))
         | BLOW \<Rightarrow> c))"

text \<open>
  The cells the loops of a stamp reach and the distance test lets through: inside the
  half-open box \<open>[startX, endX) \<times> [startY, endY)\<close> and within the radius.
\<close>

definition covered :: "int \<Rightarrow> int \<Rightarrow> real \<Rightarrow> int \<Rightarrow> int \<Rightarrow> bool" where
  "covered simX simY simRadius cy cx \<longleftrightarrow>
     max 0 \<lfloor>real_of_int simX - simRadius\<rfloor> \<le> cx \<and> cx < min SIM_W \<lceil>real_of_int simX + simRadius\<rceil> \<and>
     max 0 \<lfloor>real_of_int simY - simRadius\<rfloor> \<le> cy \<and> cy < min SIM_H \<lceil>real_of_int simY + simRadius\<rceil> \<and>
     real_of_int ((cx - simX) ^ 2 + (cy - simY) ^ 2) \<le> simRadius * simRadius"

definition falloffAt :: "int \<Rightarrow> int \<Rightarrow> real \<Rightarrow> int \<Rightarrow> int \<Rightarrow> real" where
  "falloffAt simX simY simRadius cy cx =
     1 - real_of_int ((cx - simX) ^ 2 + (cy - simY) ^ 2) / (simRadius * simRadius)"

text \<open>The total of one array over the grid.\<close>

definition gridSum :: "(int \<Rightarrow> real) \<Rightarrow> real" where
  "gridSum f = sum f cells"


text \<open>
  The order in which the sweep of \<open>updateSimulation\<close> reaches the cells, as pairs
  \<open>(y, x)\<close>: row by row, each row from left to right.
\<close>

definition sweepOrder :: "(int \<times> int) list" where
  "sweepOrder = List.product [0 .. SIM_H - 1] [0 .. SIM_W - 1]"

text \<open>
  The water the evaporation line removes when the sweep reaches the cell \<open>(x, y)\<close> in the
  grid \<open>gr\<close>: nothing from a cell the sweep skips, and otherwise the difference between the
  water before and after \<^verbatim>\<open>Math.max(0, wm[i] - evap)\<close>.
\<close>

definition evapLoss :: "SimulationSettings \<Rightarrow> int \<Rightarrow> int \<Rightarrow> grid \<Rightarrow> real" where
  "evapLoss ss y x gr =
     (let w = waterMap gr (y * SIM_W + x)
      in if w > 0.01 then min w (evaporationRate ss) else 0)"

text \<open>The evaporation losses added up along a run of the sweep over the cells \<open>cs\<close>.\<close>

fun lossAlong :: "SimulationSettings \<Rightarrow> (int \<times> int) list \<Rightarrow> grid \<Rightarrow> real" where
  "lossAlong ss [] gr = 0"
| "lossAlong ss (c # cs) gr =
     evapLoss ss (fst c) (snd c) gr + lossAlong ss cs (cellStep ss (fst c) (snd c) gr)"

definition evaporated :: "SimulationSettings \<Rightarrow> grid \<Rightarrow> real" where
  "evaporated ss gr = (if paused ss then 0 else lossAlong ss sweepOrder gr)"


text \<open>The documented ranges of the brush settings, the colour and the simulation settings.\<close>

definition brushInRange :: "BrushSettings \<Rightarrow> bool" where
  "brushInRange bs \<longleftrightarrow>
     0 \<le> pressure bs \<and> pressure bs \<le> 1 \<and> 0 \<le> waterLoad bs \<and> waterLoad bs \<le> 100 \<and>
     0 \<le> pigmentLoad bs \<and> pigmentLoad bs \<le> 100"

definition colorInRange :: "RGB \<Rightarrow> bool" where
  "colorInRange color \<longleftrightarrow>
     0 \<le> rgb_r color \<and> rgb_r color \<le> 255 \<and> 0 \<le> rgb_g color \<and> rgb_g color \<le> 255 \<and>
     0 \<le> rgb_b color \<and> rgb_b color \<le> 255"

definition simInRange :: "SimulationSettings \<Rightarrow> bool" where
  "simInRange ss \<longleftrightarrow>
     0 \<le> diffusionSpeed ss \<and> diffusionSpeed ss \<le> 0.5 \<and>
     0 \<le> evaporationRate ss \<and> evaporationRate ss \<le> 0.05 \<and>
     - 0.2 \<le> gravityX ss \<and> gravityX ss \<le> 0.2 \<and> - 0.2 \<le> gravityY ss \<and> gravityY ss \<le> 0.2"

text \<open>No cell of the grid holds a negative water or pigment value.\<close>

definition nonNegative :: "grid \<Rightarrow> bool" where
  "nonNegative gr \<longleftrightarrow>
     (\<forall>i \<in> cells. 0 \<le> waterMap gr i \<and> 0 \<le> pigmentR gr i \<and> 0 \<le> pigmentG gr i \<and> 0 \<le> pigmentB gr i)"

text \<open>No cell of the grid holds more water than the saturation cap of the stamps.\<close>

definition capped :: "grid \<Rightarrow> bool" where
  "capped gr \<longleftrightarrow> (\<forall>i \<in> cells. waterMap gr i \<le> 10)"

text \<open>
  What the callback \<open>visit\<close> for the cell \<open>i\<close> maintains between two neighbours: the
  remaining budget is not negative and not above the running water value, which in turn is
  not above the water stored at \<open>i\<close>.
\<close>

definition flowInv :: "int \<Rightarrow> flowState \<Rightarrow> bool" where
  "flowInv i st \<longleftrightarrow>
     nonNegative (fs_grid st) \<and> 0 \<le> amountToFlow st \<and> amountToFlow st \<le> totalWater st \<and>
     totalWater st \<le> waterMap (fs_grid st) i"

text \<open>
  A sequence of operations on the grid: stamps (with the simulation coordinates and radius
  that \<open>applyBrush\<close> derives from the pointer event) and transport steps.
\<close>

datatype operation =
  Stamp ToolType RGB BrushSettings int int real
| Transport SimulationSettings

fun applyOp :: "operation \<Rightarrow> grid \<Rightarrow> grid" where
  "applyOp (Stamp activeTool color bs simX simY simRadius) gr =
     stamp activeTool color bs simX simY simRadius gr"
| "applyOp (Transport ss) gr = updateSimulation ss gr"

definition run :: "operation list \<Rightarrow> grid \<Rightarrow> grid" where
  "run ops gr = fold applyOp ops gr"

fun opInRange :: "operation \<Rightarrow> bool" where
  "opInRange (Stamp activeTool color bs simX simY simRadius) \<longleftrightarrow>
     brushInRange bs \<and> colorInRange color \<and> 1 \<le> simRadius"
| "opInRange (Transport ss) \<longleftrightarrow> simInRange ss"

fun zeroGravity :: "operation \<Rightarrow> bool" where
  "zeroGravity (Stamp activeTool color bs simX simY simRadius) \<longleftrightarrow> True"
| "zeroGravity (Transport ss) \<longleftrightarrow> gravityX ss = 0 \<and> gravityY ss = 0"


text \<open>
  Names for the three quantities of the callback \<open>visit\<close>: the gradient toward a neighbour
  entry, the flow it allows, and the state after the block guarded by \<^verbatim>\<open>flow > 0.001\<close>
  (lemma \<open>visit_unfold\<close> restates \<open>visit\<close> with them).
\<close>

definition gradientOf :: "flowState \<Rightarrow> int \<times> real \<Rightarrow> real" where
  "gradientOf st nb = (totalWater st - waterMap (fs_grid st) (fst nb)) + (snd nb * 5)"

definition flowOf :: "flowState \<Rightarrow> int \<times> real \<Rightarrow> real" where
  "flowOf st nb = min (amountToFlow st) (gradientOf st nb * 0.1)"

definition transfer :: "int \<Rightarrow> int \<Rightarrow> real \<Rightarrow> flowState \<Rightarrow> flowState" where
  "transfer i n flow st =
     (let gr = fs_grid st;
          wm1 = (waterMap gr)(i := waterMap gr i - flow);
          wm2 = wm1(n := wm1 n + flow);
          ratio = flow / totalWater st;
          pFlowR = pigmentR gr i * ratio;
          pFlowG = pigmentG gr i * ratio;
          pFlowB = pigmentB gr i * ratio;
          pr1 = (pigmentR gr)(i := pigmentR gr i - pFlowR);
          pg1 = (pigmentG gr)(i := pigmentG gr i - pFlowG);
          pb1 = (pigmentB gr)(i := pigmentB gr i - pFlowB);
          pr2 = pr1(n := pr1 n + pFlowR);
          pg2 = pg1(n := pg1 n + pFlowG);
          pb2 = pb1(n := pb1 n + pFlowB)
      in \<lparr> fs_grid = gr\<lparr> waterMap := wm2, wetnessMap := (wetnessMap gr)(n := 1),
                          pigmentR := pr2, pigmentG := pg2, pigmentB := pb2 \<rparr>,
           amountToFlow = amountToFlow st - flow,
           totalWater = totalWater st - flow \<rparr>)"


text \<open>The number of cells holding more water than the threshold 0.01 of the sweep.\<close>

definition wetCount :: "grid \<Rightarrow> nat" where
  "wetCount gr = length (filter (\<lambda>i. waterMap gr i > 0.01) [0 .. SIM_W * SIM_H - 1])"

subsection \<open>Concrete settings and grids used in the examples\<close>

text \<open>A brush of size 2 (radius 1 on the 800 pixel wide canvas) at full pressure and water load.\<close>

definition soakBrush :: BrushSettings where
  "soakBrush = \<lparr> brushSize = 2, pressure = 1, waterLoad = 100, pigmentLoad = 80 \<rparr>"

text \<open>
  Settings within the documented ranges: \<open>gravityX = -0.2\<close>, which gives the right
  neighbour the bias \<open>+0.2\<close>, a small diffusion speed and no evaporation.
\<close>

definition tiltRight :: SimulationSettings where
  "tiltRight =
     \<lparr> evaporationRate = 0, diffusionSpeed = 0.01, gravityX = - 0.2, gravityY = 0,
       paperTexture = rough, paused = False, showWetness = False \<rparr>"

text \<open>Settings within the documented ranges: level paper, the strongest evaporation.\<close>

definition levelPaper :: SimulationSettings where
  "levelPaper =
     \<lparr> evaporationRate = 0.05, diffusionSpeed = 0.1, gravityX = 0, gravityY = 0,
       paperTexture = rough, paused = False, showWetness = False \<rparr>"

text \<open>The empty grid with 10 units of water in the cell \<open>(398, 299)\<close>, the last but one.\<close>

definition dropGrid :: grid where
  "dropGrid = emptyGrid\<lparr> waterMap := (waterMap emptyGrid)(299 * SIM_W + 398 := 10) \<rparr>"


text \<open>The empty grid with 10 units of water in the corner cell \<open>(399, 0)\<close>.\<close>

definition cornerDrop :: grid where
  "cornerDrop = emptyGrid\<lparr> waterMap := (waterMap emptyGrid)(0 * SIM_W + 399 := 10) \<rparr>"

subsection \<open>The state in which the neighbour pass of a cell starts\<close>

text \<open>
  The arrays after the evaporation line of \<open>cellStep\<close> for the cell \<open>(x, y)\<close> and the two
  locals as the source initialises them, \<^verbatim>\<open>totalWater = wm[i]\<close> and
  \<^verbatim>\<open>amountToFlow = totalWater * diff\<close>; lemma \<open>cellStep_pass\<close> restates \<open>cellStep\<close> with it.
\<close>

definition passStart :: "SimulationSettings \<Rightarrow> int \<Rightarrow> int \<Rightarrow> grid \<Rightarrow> flowState" where
  "passStart ss y x gr =
     (let i = y * SIM_W + x;
          w1 = max 0 (waterMap gr i - evaporationRate ss)
      in \<lparr> fs_grid = gr\<lparr> waterMap := (waterMap gr)(i := w1) \<rparr>,
           amountToFlow = w1 * diffusionSpeed ss,
           totalWater = w1 \<rparr>)"

subsection \<open>The flow rule as the specification words it\<close>

text \<open>
  The following definitions are written from the description of the transport step, not
  from the source; the lemmas \<open>visit_eq_spec\<close> and \<open>flow_pass_eq_spec\<close> compare them with
  \<open>visit\<close> and \<open>neighbors\<close>. The description's \<open>availableFlow\<close> is the field
  \<open>amountToFlow\<close>; its running value of the water at \<open>i\<close> (``local \<open>water[i]\<close>'') is the
  field \<open>totalWater\<close>.

  Moving \<open>amt\<close> units of an array from the cell \<open>i\<close> to the cell \<open>n\<close>:
\<close>

definition moveMass :: "(int \<Rightarrow> real) \<Rightarrow> int \<Rightarrow> int \<Rightarrow> real \<Rightarrow> int \<Rightarrow> real" where
  "moveMass f i n amt = (\<lambda>j. f j - (if j = i then amt else 0) + (if j = n then amt else 0))"

text \<open>
  ``Move \<open>flow\<close> water units from \<open>i\<close> to the neighbour, move pigment in the same proportion
  (\<open>ratio = flow / water at i before this transfer\<close>) for each of the three channels, set the
  neighbour's wetness to 1, decrement \<open>availableFlow\<close> and the local water by \<open>flow\<close>.''
\<close>

definition specTransfer :: "int \<Rightarrow> int \<Rightarrow> real \<Rightarrow> flowState \<Rightarrow> flowState" where
  "specTransfer i n flow st =
     (let gr = fs_grid st;
          ratio = flow / totalWater st
      in \<lparr> fs_grid =
             \<lparr> waterMap = moveMass (waterMap gr) i n flow,
               wetnessMap = (\<lambda>j. if j = n then 1 else wetnessMap gr j),
               pigmentR = moveMass (pigmentR gr) i n (pigmentR gr i * ratio),
               pigmentG = moveMass (pigmentG gr) i n (pigmentG gr i * ratio),
               pigmentB = moveMass (pigmentB gr) i n (pigmentB gr i * ratio) \<rparr>,
           amountToFlow = amountToFlow st - flow,
           totalWater = totalWater st - flow \<rparr>)"

text \<open>
  ``While \<open>availableFlow > 0\<close>: \<open>gradient = (water[i] - water[neighbor]) + bias * 5\<close>; if
  \<open>gradient > 0\<close>: \<open>flow = min(availableFlow, gradient * 0.1)\<close>; if \<open>flow > 0.001\<close>,
  transfer.''
\<close>

definition specVisit :: "int \<Rightarrow> int \<Rightarrow> real \<Rightarrow> flowState \<Rightarrow> flowState" where
  "specVisit i n bias st =
     (if amountToFlow st > 0 then
        let gradient = (totalWater st - waterMap (fs_grid st) n) + bias * 5;
            flow = min (amountToFlow st) (gradient * 0.1)
        in if gradient > 0 \<and> flow > 0.001 then specTransfer i n flow st else st
      else st)"

text \<open>
  ``Four neighbour candidates in the fixed order right, left, down, up, each carrying a
  gravity bias: right \<open>-gravityX\<close>, left \<open>+gravityX\<close>, down \<open>+gravityY\<close>, up \<open>-gravityY\<close>.''
\<close>

definition specFlow :: "SimulationSettings \<Rightarrow> int \<Rightarrow> int \<Rightarrow> flowState \<Rightarrow> flowState" where
  "specFlow ss x y st =
     (let i = y * SIM_W + x;
          afterRight = specVisit i (idx (x + 1) y) (- gravityX ss) st;
          afterLeft = specVisit i (idx (x - 1) y) (gravityX ss) afterRight;
          afterDown = specVisit i (idx x (y + 1)) (gravityY ss) afterLeft
      in specVisit i (idx x (y - 1)) (- gravityY ss) afterDown)"

section \<open>Properties\<close>

subsection \<open>The compositor writes each pixel once\<close>








subsection \<open>Pixels of blank cells\<close>






subsection \<open>A stamp acts on each covered cell by its tool rule\<close>


lemma stampCell_other:
  "j \<noteq> cy * SIM_W + cx \<Longrightarrow> cellOf (stampCell tool color bs simX simY rSq cy cx gr) j = cellOf gr j"
  by (simp add: stampCell_def cellOf_def Let_def split: ToolType.splits)

lemma stampCell_hit:
  "cellOf (stampCell tool color bs simX simY rSq cy cx gr) (cy * SIM_W + cx) =
     (if real_of_int ((cx - simX) ^ 2 + (cy - simY) ^ 2) \<le> rSq
      then stampRule tool color bs
             ((1 - real_of_int ((cx - simX) ^ 2 + (cy - simY) ^ 2) / rSq) * pressure bs)
             (cellOf gr (cy * SIM_W + cx))
      else cellOf gr (cy * SIM_W + cx))"
  by (simp add: stampCell_def stampRule_def cellOf_def Let_def split: ToolType.splits)

lemma stampRow_other:
  "\<forall>cx \<in> set xs. cy * SIM_W + cx \<noteq> j \<Longrightarrow>
   cellOf (fold (stampCell tool color bs simX simY rSq cy) xs gr) j = cellOf gr j"
  by (induction xs arbitrary: gr) (simp_all add: stampCell_other)

lemma stampRow_hit:
  "distinct xs \<Longrightarrow> cx \<in> set xs \<Longrightarrow>
   cellOf (fold (stampCell tool color bs simX simY rSq cy) xs gr) (cy * SIM_W + cx) =
   cellOf (stampCell tool color bs simX simY rSq cy cx gr) (cy * SIM_W + cx)"
proof (induction xs arbitrary: gr)
  case Nil
  then show ?case by simp
next
  case (Cons x xs)
  show ?case
  proof (cases "x = cx")
    case True
    with Cons.prems have "\<forall>c \<in> set xs. cy * SIM_W + c \<noteq> cy * SIM_W + cx" by auto
    then show ?thesis using True by (simp add: stampRow_other)
  next
    case False
    with Cons.prems have a: "distinct xs" "cx \<in> set xs" by auto
    have b: "cellOf (stampCell tool color bs simX simY rSq cy x gr) (cy * SIM_W + cx)
             = cellOf gr (cy * SIM_W + cx)"
      using False by (simp add: stampCell_other)
    show ?thesis using Cons.IH[OF a, of "stampCell tool color bs simX simY rSq cy x gr"] b
      by (simp add: stampCell_hit)
  qed
qed

lemma index_inj:
  "0 \<le> cx \<Longrightarrow> cx < SIM_W \<Longrightarrow> 0 \<le> cx' \<Longrightarrow> cx' < SIM_W \<Longrightarrow>
   cy * SIM_W + cx = cy' * SIM_W + cx' \<Longrightarrow> cy = cy' \<and> cx = cx'"
proof -
  assume a: "0 \<le> cx" "cx < SIM_W" "0 \<le> cx'" "cx' < SIM_W" "cy * SIM_W + cx = cy' * SIM_W + cx'"
  have "(cy * SIM_W + cx) div SIM_W = cy" using a(1,2) by (simp add: SIM_W_def)
  moreover have "(cy' * SIM_W + cx') div SIM_W = cy'" using a(3,4) by (simp add: SIM_W_def)
  ultimately have "cy = cy'" using a(5) by simp
  with a(5) show ?thesis by simp
qed

lemma stampRows_other:
  "\<forall>cy \<in> set ys. \<forall>cx \<in> set xs. cy * SIM_W + cx \<noteq> j \<Longrightarrow>
   cellOf (fold (\<lambda>cy. fold (stampCell tool color bs simX simY rSq cy) xs) ys gr) j = cellOf gr j"
  by (induction ys arbitrary: gr) (simp_all add: stampRow_other)

lemma stampRows_hit:
  assumes "distinct ys" "cy \<in> set ys" "distinct xs" "cx \<in> set xs"
    and "\<forall>c \<in> set xs. 0 \<le> c \<and> c < SIM_W"
  shows "cellOf (fold (\<lambda>cy. fold (stampCell tool color bs simX simY rSq cy) xs) ys gr) (cy * SIM_W + cx) =
         cellOf (stampCell tool color bs simX simY rSq cy cx gr) (cy * SIM_W + cx)"
  using assms(1,2)
proof (induction ys arbitrary: gr)
  case Nil
  then show ?case by simp
next
  case (Cons y ys)
  have cxr: "0 \<le> cx" "cx < SIM_W" using assms(4,5) by auto
  show ?case
  proof (cases "y = cy")
    case True
    have "\<forall>r \<in> set ys. \<forall>c \<in> set xs. r * SIM_W + c \<noteq> cy * SIM_W + cx"
    proof (intro ballI)
      fix r c assume "r \<in> set ys" "c \<in> set xs"
      with Cons.prems True have "r \<noteq> cy" by auto
      moreover have "0 \<le> c" "c < SIM_W" using assms(5) \<open>c \<in> set xs\<close> by auto
      ultimately show "r * SIM_W + c \<noteq> cy * SIM_W + cx"
        using index_inj[OF \<open>0 \<le> c\<close> \<open>c < SIM_W\<close> cxr] by blast
    qed
    then show ?thesis using True
      by (simp add: stampRows_other stampRow_hit[OF assms(3,4)])
  next
    case False
    with Cons.prems have a: "distinct ys" "cy \<in> set ys" by auto
    have "\<forall>c \<in> set xs. y * SIM_W + c \<noteq> cy * SIM_W + cx"
    proof
      fix c assume "c \<in> set xs"
      then have "0 \<le> c" "c < SIM_W" using assms(5) by auto
      then show "y * SIM_W + c \<noteq> cy * SIM_W + cx"
        using index_inj[OF \<open>0 \<le> c\<close> \<open>c < SIM_W\<close> cxr] False by blast
    qed
    then have b: "cellOf (fold (stampCell tool color bs simX simY rSq y) xs gr) (cy * SIM_W + cx)
             = cellOf gr (cy * SIM_W + cx)"
      by (rule stampRow_other)
    show ?thesis
      using Cons.IH[OF a, of "fold (stampCell tool color bs simX simY rSq y) xs gr"] b
      by (simp add: stampCell_hit)
  qed
qed

lemma stamp_cellOf:
  assumes "0 \<le> cx" "cx < SIM_W"
  shows "cellOf (stamp tool color bs simX simY simRadius gr) (cy * SIM_W + cx) =
     (if covered simX simY simRadius cy cx
      then stampRule tool color bs (falloffAt simX simY simRadius cy cx * pressure bs)
             (cellOf gr (cy * SIM_W + cx))
      else cellOf gr (cy * SIM_W + cx))"
proof -
  define startX where "startX = max 0 \<lfloor>real_of_int simX - simRadius\<rfloor>"
  define endX where "endX = min SIM_W \<lceil>real_of_int simX + simRadius\<rceil>"
  define startY where "startY = max 0 \<lfloor>real_of_int simY - simRadius\<rfloor>"
  define endY where "endY = min SIM_H \<lceil>real_of_int simY + simRadius\<rceil>"
  have st: "stamp tool color bs simX simY simRadius gr =
     fold (\<lambda>cy. fold (stampCell tool color bs simX simY (simRadius * simRadius) cy) [startX .. endX - 1])
       [startY .. endY - 1] gr"
    by (simp add: stamp_def Let_def startX_def endX_def startY_def endY_def)
  have xr: "\<forall>c \<in> set [startX .. endX - 1]. 0 \<le> c \<and> c < SIM_W"
    by (auto simp: startX_def endX_def)
  show ?thesis
  proof (cases "startX \<le> cx \<and> cx < endX \<and> startY \<le> cy \<and> cy < endY")
    case True
    then have "cx \<in> set [startX .. endX - 1]" "cy \<in> set [startY .. endY - 1]" by auto
    from stampRows_hit[OF distinct_upto this(2) distinct_upto this(1) xr]
    show ?thesis using True unfolding st
      by (simp add: stampCell_hit covered_def falloffAt_def startX_def endX_def startY_def endY_def)
  next
    case False
    have "\<forall>r \<in> set [startY .. endY - 1]. \<forall>c \<in> set [startX .. endX - 1]. r * SIM_W + c \<noteq> cy * SIM_W + cx"
    proof (intro ballI)
      fix r c assume rc: "r \<in> set [startY .. endY - 1]" "c \<in> set [startX .. endX - 1]"
      then have "0 \<le> c" "c < SIM_W" using xr by auto
      from index_inj[OF this assms] rc False
      show "r * SIM_W + c \<noteq> cy * SIM_W + cx" by auto
    qed
    from stampRows_other[OF this] have "cellOf (stamp tool color bs simX simY simRadius gr) (cy * SIM_W + cx)
       = cellOf gr (cy * SIM_W + cx)" unfolding st .
    moreover have "\<not> covered simX simY simRadius cy cx"
      using False by (auto simp: covered_def startX_def endX_def startY_def endY_def)
    ultimately show ?thesis by simp
  qed
qed

subsection \<open>Stamps at the centre cell\<close>


lemma covered_center:
  assumes "0 \<le> simX" "simX < SIM_W" "0 \<le> simY" "simY < SIM_H" "0 < simRadius"
  shows "covered simX simY simRadius simY simX"
proof -
  have "\<lfloor>real_of_int simX - simRadius\<rfloor> \<le> simX" "\<lfloor>real_of_int simY - simRadius\<rfloor> \<le> simY"
    using assms(5) by (simp_all add: floor_le_iff)
  moreover have "simX < \<lceil>real_of_int simX + simRadius\<rceil>" "simY < \<lceil>real_of_int simY + simRadius\<rceil>"
    using assms(5) by (simp_all add: less_ceiling_iff)
  ultimately show ?thesis using assms by (simp add: covered_def)
qed

lemma falloffAt_center: "falloffAt simX simY simRadius simY simX = 1"
  by (simp add: falloffAt_def)

lemma stamp_center:
  assumes "0 \<le> simX" "simX < SIM_W" "0 \<le> simY" "simY < SIM_H" "0 < simRadius"
  shows "cellOf (stamp tool color bs simX simY simRadius gr) (simY * SIM_W + simX) =
         stampRule tool color bs (pressure bs) (cellOf gr (simY * SIM_W + simX))"
  using stamp_cellOf[OF assms(1,2), of tool color bs simX simY simRadius gr simY]
        covered_center[OF assms]
  by (simp add: falloffAt_center)

text \<open>
  Claim C1, as amended. One BRUSH stamp at the centre \<open>(200, 150)\<close> of the grid with pressure
  0.5, water load 60, pigment load 80, colour (40, 150, 250) and a radius of at least 1: the
  amount at the centre cell is \<open>falloff * pressure = 1 * 0.5\<close>, so its water becomes
  \<open>min 10 (water + 0.5 * (60 / 20)) = min 10 (water + 1.5)\<close> (an increase of exactly 1.5
  whenever the cell held at most 8.5), and each pigment channel is lerped toward the brush
  colour with \<open>alpha = 0.5 * 0.8 * 0.5 = 0.2\<close>.
\<close>

theorem brush_stamp_center_cell:
  assumes "1 \<le> simRadius"
    and "pressure bs = 0.5" and "waterLoad bs = 60" and "pigmentLoad bs = 80"
    and "rgb_r color = 40" and "rgb_g color = 150" and "rgb_b color = 250"
  shows "waterMap (stamp BRUSH color bs 200 150 simRadius gr) (150 * SIM_W + 200)
           = min 10 (waterMap gr (150 * SIM_W + 200) + 1.5)
       \<and> (waterMap gr (150 * SIM_W + 200) \<le> 8.5 \<longrightarrow>
            waterMap (stamp BRUSH color bs 200 150 simRadius gr) (150 * SIM_W + 200)
              - waterMap gr (150 * SIM_W + 200) = 1.5)
       \<and> pigmentR (stamp BRUSH color bs 200 150 simRadius gr) (150 * SIM_W + 200)
           = pigmentR gr (150 * SIM_W + 200) * (1 - 0.2) + 40 * 0.2
       \<and> pigmentG (stamp BRUSH color bs 200 150 simRadius gr) (150 * SIM_W + 200)
           = pigmentG gr (150 * SIM_W + 200) * (1 - 0.2) + 150 * 0.2
       \<and> pigmentB (stamp BRUSH color bs 200 150 simRadius gr) (150 * SIM_W + 200)
           = pigmentB gr (150 * SIM_W + 200) * (1 - 0.2) + 250 * 0.2"
proof -
  have "cellOf (stamp BRUSH color bs 200 150 simRadius gr) (150 * SIM_W + 200) =
         stampRule BRUSH color bs (pressure bs) (cellOf gr (150 * SIM_W + 200))"
    using assms(1) by (intro stamp_center) (simp_all add: SIM_W_def SIM_H_def)
  then show ?thesis
    using assms(2-) by (simp add: cellOf_def stampRule_def)
qed

theorem brush_stamp_center_cell_witness:
  "waterMap (stamp BRUSH defaultColor DEFAULT_BRUSH 200 150 10 emptyGrid) (150 * SIM_W + 200) = 3 / 2
   \<and> pigmentR (stamp BRUSH defaultColor DEFAULT_BRUSH 200 150 10 emptyGrid) (150 * SIM_W + 200) = 8
   \<and> pigmentG (stamp BRUSH defaultColor DEFAULT_BRUSH 200 150 10 emptyGrid) (150 * SIM_W + 200) = 30
   \<and> pigmentB (stamp BRUSH defaultColor DEFAULT_BRUSH 200 150 10 emptyGrid) (150 * SIM_W + 200) = 50"
  using brush_stamp_center_cell[of 10 DEFAULT_BRUSH defaultColor emptyGrid]
  by (simp add: DEFAULT_BRUSH_def defaultColor_def emptyGrid_def)

text \<open>
  The amounts claim C1 states (an increase of the water by 0.75, a lerp with alpha 0.1) are
  not the ones the stamp produces: on the empty grid the centre cell's water rises by 1.5 and
  its red channel becomes 8, not 4.
\<close>

theorem brush_stamp_center_claimed_amounts_fail:
  "waterMap (stamp BRUSH defaultColor DEFAULT_BRUSH 200 150 1 emptyGrid) (150 * SIM_W + 200)
     - waterMap emptyGrid (150 * SIM_W + 200) \<noteq> 0.75
   \<and> pigmentR (stamp BRUSH defaultColor DEFAULT_BRUSH 200 150 1 emptyGrid) (150 * SIM_W + 200)
     \<noteq> pigmentR emptyGrid (150 * SIM_W + 200) * (1 - 0.1) + 40 * 0.1"
proof -
  have "cellOf (stamp BRUSH defaultColor DEFAULT_BRUSH 200 150 1 emptyGrid) (150 * SIM_W + 200) =
         stampRule BRUSH defaultColor DEFAULT_BRUSH (pressure DEFAULT_BRUSH) (cellOf emptyGrid (150 * SIM_W + 200))"
    by (intro stamp_center) (simp_all add: SIM_W_def SIM_H_def)
  then show ?thesis
    by (simp add: cellOf_def stampRule_def DEFAULT_BRUSH_def defaultColor_def emptyGrid_def)
qed

lemma eraser_iter:
  assumes "0 \<le> simX" "simX < SIM_W" "0 \<le> simY" "simY < SIM_H" "1 \<le> simRadius" "pressure bs = 1"
  shows "cellOf ((stamp ERASER color bs simX simY simRadius ^^ n) gr) (simY * SIM_W + simX) =
         (waterMap gr (simY * SIM_W + simX) * (1 / 2) ^ n,
          wetnessMap gr (simY * SIM_W + simX),
          pigmentR gr (simY * SIM_W + simX) * (1 / 2) ^ n,
          pigmentG gr (simY * SIM_W + simX) * (1 / 2) ^ n,
          pigmentB gr (simY * SIM_W + simX) * (1 / 2) ^ n)"
proof (induction n)
  case 0
  show ?case by (simp add: cellOf_def)
next
  case (Suc n)
  have r: "0 < simRadius" using assms(5) by simp
  show ?case
    using stamp_center[OF assms(1-4) r, of ERASER color bs "(stamp ERASER color bs simX simY simRadius ^^ n) gr"]
          Suc.IH assms(6)
    by (simp add: stampRule_def)
qed

text \<open>
  Claim C8. An ERASER stamp with pressure 1 has amount 1 at the cell of the stamp centre and
  multiplies that cell's water and each of its three pigment channels by exactly 0.5; after
  any number \<open>n\<close> of such stamps a value that was strictly positive is still strictly
  positive.
\<close>

theorem eraser_stamp_halves_center_cell:
  assumes "0 \<le> simX" "simX < SIM_W" "0 \<le> simY" "simY < SIM_H" "1 \<le> simRadius" "pressure bs = 1"
  shows "waterMap (stamp ERASER color bs simX simY simRadius gr) (simY * SIM_W + simX)
           = waterMap gr (simY * SIM_W + simX) * 0.5
       \<and> pigmentR (stamp ERASER color bs simX simY simRadius gr) (simY * SIM_W + simX)
           = pigmentR gr (simY * SIM_W + simX) * 0.5
       \<and> pigmentG (stamp ERASER color bs simX simY simRadius gr) (simY * SIM_W + simX)
           = pigmentG gr (simY * SIM_W + simX) * 0.5
       \<and> pigmentB (stamp ERASER color bs simX simY simRadius gr) (simY * SIM_W + simX)
           = pigmentB gr (simY * SIM_W + simX) * 0.5
       \<and> (0 < waterMap gr (simY * SIM_W + simX) \<longrightarrow>
            0 < waterMap ((stamp ERASER color bs simX simY simRadius ^^ n) gr) (simY * SIM_W + simX))
       \<and> (0 < pigmentR gr (simY * SIM_W + simX) \<longrightarrow>
            0 < pigmentR ((stamp ERASER color bs simX simY simRadius ^^ n) gr) (simY * SIM_W + simX))
       \<and> (0 < pigmentG gr (simY * SIM_W + simX) \<longrightarrow>
            0 < pigmentG ((stamp ERASER color bs simX simY simRadius ^^ n) gr) (simY * SIM_W + simX))
       \<and> (0 < pigmentB gr (simY * SIM_W + simX) \<longrightarrow>
            0 < pigmentB ((stamp ERASER color bs simX simY simRadius ^^ n) gr) (simY * SIM_W + simX))"
proof -
  have one: "cellOf (stamp ERASER color bs simX simY simRadius gr) (simY * SIM_W + simX) =
         (waterMap gr (simY * SIM_W + simX) * (1 / 2) ^ 1,
          wetnessMap gr (simY * SIM_W + simX),
          pigmentR gr (simY * SIM_W + simX) * (1 / 2) ^ 1,
          pigmentG gr (simY * SIM_W + simX) * (1 / 2) ^ 1,
          pigmentB gr (simY * SIM_W + simX) * (1 / 2) ^ 1)"
    using eraser_iter[OF assms, where n = 1 and gr = gr and color = color] by simp
  show ?thesis
    using one eraser_iter[OF assms, where n = n and gr = gr and color = color]
    by (simp add: cellOf_def)
qed

text \<open>
  Claim C10 at the default brush (size 20 on the 800 pixel wide canvas, hence radius 10)
  stamped at the centre of the empty grid: the cell \<open>(210, 150)\<close> is at squared distance
  \<open>100 \<le> 10 * 10\<close> from the centre, but the loop over \<open>cx\<close> stops before
  \<open>endX = \<lceil>200 + 10\<rceil> = 210\<close>, so its wetness stays 0, while the mirror cell
  \<open>(190, 150)\<close> is set to 1.
\<close>

theorem brush_stamp_misses_far_edge_cell:
  "real_of_int ((210 - 200) ^ 2 + (150 - 150) ^ 2) \<le> 10 * (10::real)
   \<and> wetnessMap (stamp BRUSH defaultColor DEFAULT_BRUSH 200 150 10 emptyGrid) (150 * SIM_W + 210) = 0
   \<and> wetnessMap (stamp BRUSH defaultColor DEFAULT_BRUSH 200 150 10 emptyGrid) (150 * SIM_W + 190) = 1"
proof -
  have a: "\<not> covered 200 150 10 150 210" by (simp add: covered_def SIM_W_def)
  have b: "covered 200 150 10 150 190" by (simp add: covered_def SIM_W_def SIM_H_def)
  have "cellOf (stamp BRUSH defaultColor DEFAULT_BRUSH 200 150 10 emptyGrid) (150 * SIM_W + 210)
        = cellOf emptyGrid (150 * SIM_W + 210)"
    using a by (subst stamp_cellOf) (simp_all add: SIM_W_def)
  moreover have "cellOf (stamp BRUSH defaultColor DEFAULT_BRUSH 200 150 10 emptyGrid) (150 * SIM_W + 190)
        = stampRule BRUSH defaultColor DEFAULT_BRUSH (falloffAt 200 150 10 150 190 * pressure DEFAULT_BRUSH)
            (cellOf emptyGrid (150 * SIM_W + 190))"
    using b by (subst stamp_cellOf) (simp_all add: SIM_W_def)
  ultimately show ?thesis
    by (simp add: cellOf_def stampRule_def emptyGrid_def)
qed

theorem eraser_stamp_halves_center_cell_witness:
  "waterMap (stamp ERASER defaultColor (DEFAULT_BRUSH\<lparr>pressure := 1\<rparr>) 200 150 1 (uniformGrid 8 1 40 150 250))
     (150 * SIM_W + 200) = 4
   \<and> pigmentR (stamp ERASER defaultColor (DEFAULT_BRUSH\<lparr>pressure := 1\<rparr>) 200 150 1 (uniformGrid 8 1 40 150 250))
     (150 * SIM_W + 200) = 20
   \<and> pigmentG (stamp ERASER defaultColor (DEFAULT_BRUSH\<lparr>pressure := 1\<rparr>) 200 150 1 (uniformGrid 8 1 40 150 250))
     (150 * SIM_W + 200) = 75
   \<and> pigmentB (stamp ERASER defaultColor (DEFAULT_BRUSH\<lparr>pressure := 1\<rparr>) 200 150 1 (uniformGrid 8 1 40 150 250))
     (150 * SIM_W + 200) = 125
   \<and> 0 < waterMap ((stamp ERASER defaultColor (DEFAULT_BRUSH\<lparr>pressure := 1\<rparr>) 200 150 1 ^^ 40)
           (uniformGrid 8 1 40 150 250)) (150 * SIM_W + 200)
   \<and> 0 < pigmentR ((stamp ERASER defaultColor (DEFAULT_BRUSH\<lparr>pressure := 1\<rparr>) 200 150 1 ^^ 40)
           (uniformGrid 8 1 40 150 250)) (150 * SIM_W + 200)
   \<and> 0 < pigmentG ((stamp ERASER defaultColor (DEFAULT_BRUSH\<lparr>pressure := 1\<rparr>) 200 150 1 ^^ 40)
           (uniformGrid 8 1 40 150 250)) (150 * SIM_W + 200)
   \<and> 0 < pigmentB ((stamp ERASER defaultColor (DEFAULT_BRUSH\<lparr>pressure := 1\<rparr>) 200 150 1 ^^ 40)
           (uniformGrid 8 1 40 150 250)) (150 * SIM_W + 200)"
  using eraser_stamp_halves_center_cell[where simX = 200 and simY = 150 and simRadius = 1
      and bs = "DEFAULT_BRUSH\<lparr>pressure := 1\<rparr>" and color = defaultColor
      and gr = "uniformGrid 8 1 40 150 250" and n = 40]
  by (simp add: SIM_W_def SIM_H_def uniformGrid_def DEFAULT_BRUSH_def)

subsection \<open>Transport: indices and totals\<close>


lemma idx_in_cells: "idx x y \<in> cells"
proof -
  define x2 where "x2 = (if (if x < 0 then 0 else x) \<ge> SIM_W then SIM_W - 1 else (if x < 0 then 0 else x))"
  define y2 where "y2 = (if (if y < 0 then 0 else y) \<ge> SIM_H then SIM_H - 1 else (if y < 0 then 0 else y))"
  have x: "0 \<le> x2" "x2 \<le> 399" by (auto simp: x2_def SIM_W_def)
  have y: "0 \<le> y2" "y2 \<le> 299" by (auto simp: y2_def SIM_H_def)
  have e: "idx x y = y2 * 400 + x2" by (simp add: idx_def Let_def x2_def y2_def SIM_W_def)
  have "y2 * 400 \<le> 299 * 400" using y by simp
  then show ?thesis using x y unfolding e cells_def SIM_W_def SIM_H_def by simp
qed

lemma idx_inside:
  "0 \<le> x \<Longrightarrow> x < SIM_W \<Longrightarrow> 0 \<le> y \<Longrightarrow> y < SIM_H \<Longrightarrow> idx x y = y * SIM_W + x"
  by (simp add: idx_def Let_def)

lemma index_in_cells:
  assumes "0 \<le> x" "x < SIM_W" "0 \<le> y" "y < SIM_H"
  shows "y * SIM_W + x \<in> cells"
  using idx_in_cells[of x y] idx_inside[OF assms] by simp

lemma sum_fun_upd:
  fixes f :: "int \<Rightarrow> real"
  assumes "finite S" "i \<in> S"
  shows "sum (f(i := a)) S = sum f S - f i + a"
proof -
  have "sum (f(i := a)) S = (f(i := a)) i + sum (f(i := a)) (S - {i})"
    using assms by (rule sum.remove)
  also have "sum (f(i := a)) (S - {i}) = sum f (S - {i})"
    by (rule sum.cong) auto
  also have "sum f (S - {i}) = sum f S - f i"
    using assms by (simp add: sum_diff1)
  finally show ?thesis by simp
qed

lemma sum_transfer:
  fixes f :: "int \<Rightarrow> real"
  assumes "finite S" "i \<in> S" "n \<in> S"
  shows "sum ((f(i := f i - d))(n := (f(i := f i - d)) n + d)) S = sum f S"
proof (cases "n = i")
  case True
  then have eq: "(f(i := f i - d))(n := (f(i := f i - d)) n + d) = f" by (simp add: fun_eq_iff)
  show ?thesis unfolding eq ..
next
  case False
  define g where "g = f(i := f i - d)"
  have s1: "sum g S = sum f S - f i + (f i - d)"
    unfolding g_def using assms(1,2) by (rule sum_fun_upd)
  have s2: "sum (g(n := g n + d)) S = sum g S - g n + (g n + d)"
    using assms(1,3) by (rule sum_fun_upd)
  have "sum (g(n := g n + d)) S = sum f S"
    using s1 s2 by linarith
  then show ?thesis unfolding g_def .
qed

lemma finite_cells: "finite cells"
  by (simp add: cells_def)

lemma gridSum_transfer:
  "i \<in> cells \<Longrightarrow> n \<in> cells \<Longrightarrow>
   gridSum ((f(i := f i - d))(n := (f(i := f i - d)) n + d)) = gridSum f"
  unfolding gridSum_def by (rule sum_transfer[OF finite_cells])

lemma gridSum_transfer_ne:
  "i \<in> cells \<Longrightarrow> n \<in> cells \<Longrightarrow> n \<noteq> i \<Longrightarrow>
   gridSum (f(i := f i - d, n := f n + d)) = gridSum f"
proof -
  assume a: "i \<in> cells" "n \<in> cells" "n \<noteq> i"
  have "(f(i := f i - d))(n := (f(i := f i - d)) n + d) = f(i := f i - d, n := f n + d)"
    using a(3) by simp
  then show ?thesis using gridSum_transfer[OF a(1,2), of f d] by (simp only:)
qed

lemma gridSum_upd:
  "i \<in> cells \<Longrightarrow> gridSum (f(i := a)) = gridSum f - f i + a"
  unfolding gridSum_def by (rule sum_fun_upd[OF finite_cells])

lemma visit_sums:
  assumes "i \<in> cells" "fst nb \<in> cells"
  shows "gridSum (waterMap (fs_grid (visit i nb st))) = gridSum (waterMap (fs_grid st))"
    and "gridSum (pigmentR (fs_grid (visit i nb st))) = gridSum (pigmentR (fs_grid st))"
    and "gridSum (pigmentG (fs_grid (visit i nb st))) = gridSum (pigmentG (fs_grid st))"
    and "gridSum (pigmentB (fs_grid (visit i nb st))) = gridSum (pigmentB (fs_grid st))"
  using assms by (simp_all add: visit_def Let_def gridSum_transfer_ne)

lemma fold_visit_sums:
  assumes "i \<in> cells" "\<forall>nb \<in> set nbs. fst nb \<in> cells"
  shows "gridSum (waterMap (fs_grid (fold (visit i) nbs st))) = gridSum (waterMap (fs_grid st))
       \<and> gridSum (pigmentR (fs_grid (fold (visit i) nbs st))) = gridSum (pigmentR (fs_grid st))
       \<and> gridSum (pigmentG (fs_grid (fold (visit i) nbs st))) = gridSum (pigmentG (fs_grid st))
       \<and> gridSum (pigmentB (fs_grid (fold (visit i) nbs st))) = gridSum (pigmentB (fs_grid st))"
  using assms(2)
proof (induction nbs arbitrary: st)
  case Nil
  show ?case by simp
next
  case (Cons nb nbs)
  then have a: "fst nb \<in> cells" and b: "\<forall>nb \<in> set nbs. fst nb \<in> cells" by simp_all
  show ?case using Cons.IH[OF b, of "visit i nb st"] visit_sums[OF assms(1) a, of st] by simp
qed

lemma neighbors_in_cells: "\<forall>nb \<in> set (neighbors ss x y). fst nb \<in> cells"
  by (simp add: neighbors_def idx_in_cells)

lemma cellStep_pigment:
  assumes "0 \<le> x" "x < SIM_W" "0 \<le> y" "y < SIM_H"
  shows "gridSum (pigmentR (cellStep ss y x gr)) = gridSum (pigmentR gr)
       \<and> gridSum (pigmentG (cellStep ss y x gr)) = gridSum (pigmentG gr)
       \<and> gridSum (pigmentB (cellStep ss y x gr)) = gridSum (pigmentB gr)"
  using fold_visit_sums[OF index_in_cells[OF assms] neighbors_in_cells]
  by (simp add: cellStep_def Let_def)

lemma cellStep_water:
  assumes "0 \<le> x" "x < SIM_W" "0 \<le> y" "y < SIM_H"
  shows "gridSum (waterMap (cellStep ss y x gr)) = gridSum (waterMap gr) - evapLoss ss y x gr"
proof -
  have i: "y * SIM_W + x \<in> cells" by (rule index_in_cells[OF assms])
  show ?thesis
    using fold_visit_sums[OF i neighbors_in_cells]
    by (auto simp: cellStep_def Let_def evapLoss_def gridSum_upd[OF i])
qed

lemma fold_product:
  "fold (\<lambda>y. fold (f y) xs) ys s = fold (\<lambda>c. f (fst c) (snd c)) (List.product ys xs) s"
  by (induction ys arbitrary: s) (simp_all add: fold_map comp_def)

lemma updateSimulation_flat:
  "updateSimulation ss gr =
     (if paused ss then gr else fold (\<lambda>c. cellStep ss (fst c) (snd c)) sweepOrder gr)"
  by (simp add: updateSimulation_def sweepOrder_def fold_product)

lemma sweepOrder_range:
  "c \<in> set sweepOrder \<Longrightarrow> 0 \<le> snd c \<and> snd c < SIM_W \<and> 0 \<le> fst c \<and> fst c < SIM_H"
  by (auto simp: sweepOrder_def)

lemma sweep_pigment:
  assumes "\<forall>c \<in> set cs. 0 \<le> snd c \<and> snd c < SIM_W \<and> 0 \<le> fst c \<and> fst c < SIM_H"
  shows "gridSum (pigmentR (fold (\<lambda>c. cellStep ss (fst c) (snd c)) cs gr)) = gridSum (pigmentR gr)
       \<and> gridSum (pigmentG (fold (\<lambda>c. cellStep ss (fst c) (snd c)) cs gr)) = gridSum (pigmentG gr)
       \<and> gridSum (pigmentB (fold (\<lambda>c. cellStep ss (fst c) (snd c)) cs gr)) = gridSum (pigmentB gr)"
  using assms
proof (induction cs arbitrary: gr)
  case Nil
  show ?case by simp
next
  case (Cons c cs)
  then have a: "0 \<le> snd c" "snd c < SIM_W" "0 \<le> fst c" "fst c < SIM_H"
    and b: "\<forall>c \<in> set cs. 0 \<le> snd c \<and> snd c < SIM_W \<and> 0 \<le> fst c \<and> fst c < SIM_H" by simp_all
  show ?case
    using Cons.IH[OF b, of "cellStep ss (fst c) (snd c) gr"] cellStep_pigment[OF a, of ss gr]
    by simp
qed

lemma sweep_water:
  assumes "\<forall>c \<in> set cs. 0 \<le> snd c \<and> snd c < SIM_W \<and> 0 \<le> fst c \<and> fst c < SIM_H"
  shows "gridSum (waterMap (fold (\<lambda>c. cellStep ss (fst c) (snd c)) cs gr))
         = gridSum (waterMap gr) - lossAlong ss cs gr"
  using assms
proof (induction cs arbitrary: gr)
  case Nil
  show ?case by simp
next
  case (Cons c cs)
  then have a: "0 \<le> snd c" "snd c < SIM_W" "0 \<le> fst c" "fst c < SIM_H"
    and b: "\<forall>c \<in> set cs. 0 \<le> snd c \<and> snd c < SIM_W \<and> 0 \<le> fst c \<and> fst c < SIM_H" by simp_all
  show ?case
    using Cons.IH[OF b, of "cellStep ss (fst c) (snd c) gr"] cellStep_water[OF a, of ss gr]
    by simp
qed

text \<open>
  Claim C4. For every grid state and every setting, one transport step leaves the total of
  each pigment channel over the grid unchanged (in exact arithmetic): transport only moves
  pigment between cells.
\<close>

theorem transport_conserves_pigment:
  "gridSum (pigmentR (updateSimulation ss gr)) = gridSum (pigmentR gr)
 \<and> gridSum (pigmentG (updateSimulation ss gr)) = gridSum (pigmentG gr)
 \<and> gridSum (pigmentB (updateSimulation ss gr)) = gridSum (pigmentB gr)"
  using sweep_pigment[of sweepOrder ss gr] sweepOrder_range
  by (simp add: updateSimulation_flat)

subsection \<open>Transport keeps the grid non-negative\<close>


lemma visit_unfold:
  "visit i nb st =
     (if amountToFlow st \<le> 0 then st
      else if gradientOf st nb > 0 then
             if flowOf st nb > 0.001 then transfer i (fst nb) (flowOf st nb) st else st
           else st)"
  unfolding visit_def gradientOf_def flowOf_def transfer_def Let_def ..

lemma transfer_water:
  "waterMap (fs_grid (transfer i n flow st)) j =
     (if j = n then (if n = i then waterMap (fs_grid st) i else waterMap (fs_grid st) n + flow)
      else if j = i then waterMap (fs_grid st) i - flow else waterMap (fs_grid st) j)"
  by (simp add: transfer_def Let_def)

lemma transfer_pigment:
  "pigmentR (fs_grid (transfer i n flow st)) j =
     (if j = n then (if n = i then pigmentR (fs_grid st) i
                     else pigmentR (fs_grid st) n + pigmentR (fs_grid st) i * (flow / totalWater st))
      else if j = i then pigmentR (fs_grid st) i - pigmentR (fs_grid st) i * (flow / totalWater st)
      else pigmentR (fs_grid st) j)"
  "pigmentG (fs_grid (transfer i n flow st)) j =
     (if j = n then (if n = i then pigmentG (fs_grid st) i
                     else pigmentG (fs_grid st) n + pigmentG (fs_grid st) i * (flow / totalWater st))
      else if j = i then pigmentG (fs_grid st) i - pigmentG (fs_grid st) i * (flow / totalWater st)
      else pigmentG (fs_grid st) j)"
  "pigmentB (fs_grid (transfer i n flow st)) j =
     (if j = n then (if n = i then pigmentB (fs_grid st) i
                     else pigmentB (fs_grid st) n + pigmentB (fs_grid st) i * (flow / totalWater st))
      else if j = i then pigmentB (fs_grid st) i - pigmentB (fs_grid st) i * (flow / totalWater st)
      else pigmentB (fs_grid st) j)"
  by (simp_all add: transfer_def Let_def)

lemma transfer_locals:
  "amountToFlow (transfer i n flow st) = amountToFlow st - flow"
  "totalWater (transfer i n flow st) = totalWater st - flow"
  by (simp_all add: transfer_def Let_def)

lemma shrink_nonneg:
  fixes p :: real
  assumes "0 \<le> p" "0 \<le> q" "q \<le> 1"
  shows "0 \<le> p - p * q" "0 \<le> p * q"
proof -
  have "p * q \<le> p * 1" using assms by (intro mult_left_mono) simp_all
  then show "0 \<le> p - p * q" by simp
  show "0 \<le> p * q" using assms by simp
qed

lemma transfer_flowInv:
  assumes "flowInv i st" "i \<in> cells" "0 < flow" "flow \<le> amountToFlow st"
  shows "flowInv i (transfer i n flow st)"
proof -
  define gr where "gr = fs_grid st"
  have inv: "nonNegative gr" "amountToFlow st \<le> totalWater st" "totalWater st \<le> waterMap gr i"
    using assms(1) by (simp_all add: flowInv_def gr_def)
  have tw: "0 < totalWater st" "flow \<le> totalWater st" using assms(3,4) inv(2) by simp_all
  define q where "q = flow / totalWater st"
  have q: "0 \<le> q" "q \<le> 1" using assms(3) tw by (simp_all add: q_def)
  have pi: "0 \<le> pigmentR gr i" "0 \<le> pigmentG gr i" "0 \<le> pigmentB gr i"
    using inv(1) assms(2) by (simp_all add: nonNegative_def)
  have b: "0 \<le> waterMap gr i - flow" using tw(2) inv(3) by simp
  have nn: "nonNegative (fs_grid (transfer i n flow st))"
    unfolding nonNegative_def
  proof
    fix j assume j: "j \<in> cells"
    have a: "0 \<le> waterMap gr j" "0 \<le> pigmentR gr j" "0 \<le> pigmentG gr j" "0 \<le> pigmentB gr j"
      using inv(1) j by (simp_all add: nonNegative_def)
    have w: "0 \<le> waterMap (fs_grid (transfer i n flow st)) j"
      using a(1) b assms(3) by (auto simp: transfer_water gr_def[symmetric])
    have r: "0 \<le> pigmentR (fs_grid (transfer i n flow st)) j"
      using a(2) shrink_nonneg[OF pi(1) q]
      by (auto simp: transfer_pigment gr_def[symmetric] q_def[symmetric])
    have g: "0 \<le> pigmentG (fs_grid (transfer i n flow st)) j"
      using a(3) shrink_nonneg[OF pi(2) q]
      by (auto simp: transfer_pigment gr_def[symmetric] q_def[symmetric])
    have bl: "0 \<le> pigmentB (fs_grid (transfer i n flow st)) j"
      using a(4) shrink_nonneg[OF pi(3) q]
      by (auto simp: transfer_pigment gr_def[symmetric] q_def[symmetric])
    show "0 \<le> waterMap (fs_grid (transfer i n flow st)) j \<and> 0 \<le> pigmentR (fs_grid (transfer i n flow st)) j \<and>
          0 \<le> pigmentG (fs_grid (transfer i n flow st)) j \<and> 0 \<le> pigmentB (fs_grid (transfer i n flow st)) j"
      using w r g bl by simp
  qed
  have w: "totalWater st - flow \<le> waterMap (fs_grid (transfer i n flow st)) i"
    using inv(3) assms(3) by (auto simp: transfer_water gr_def[symmetric])
  show ?thesis
    unfolding flowInv_def using nn w assms(4) inv(2)
    by (simp add: transfer_locals)
qed

lemma visit_flowInv:
  assumes "flowInv i st" "i \<in> cells"
  shows "flowInv i (visit i nb st)"
proof (cases "amountToFlow st \<le> 0 \<or> \<not> gradientOf st nb > 0 \<or> \<not> flowOf st nb > 0.001")
  case True
  then have "visit i nb st = st" by (auto simp: visit_unfold)
  then show ?thesis using assms(1) by simp
next
  case False
  then have v: "visit i nb st = transfer i (fst nb) (flowOf st nb) st" by (simp add: visit_unfold)
  have "0 < flowOf st nb" "flowOf st nb \<le> amountToFlow st"
    using False by (simp_all add: flowOf_def)
  then show ?thesis unfolding v by (rule transfer_flowInv[OF assms])
qed

lemma fold_visit_flowInv:
  "flowInv i st \<Longrightarrow> i \<in> cells \<Longrightarrow> flowInv i (fold (visit i) nbs st)"
  by (induction nbs arbitrary: st) (simp_all add: visit_flowInv)

lemma visit_divisor_positive:
  assumes "amountToFlow st \<le> totalWater st" "visit i nb st \<noteq> st"
  shows "0 < totalWater st"
    and "amountToFlow (visit i nb st) \<le> totalWater (visit i nb st)"
  using assms by (auto simp: visit_unfold transfer_locals split: if_splits)

lemma cellStep_nonNegative:
  assumes "nonNegative gr" "0 \<le> diffusionSpeed ss" "diffusionSpeed ss \<le> 1"
    and "0 \<le> x" "x < SIM_W" "0 \<le> y" "y < SIM_H"
  shows "nonNegative (cellStep ss y x gr)"
proof -
  define i where "i = y * SIM_W + x"
  have i: "i \<in> cells" unfolding i_def by (rule index_in_cells[OF assms(4-7)])
  define w1 where "w1 = max 0 (waterMap gr i - evaporationRate ss)"
  define g1 where "g1 = gr\<lparr> waterMap := (waterMap gr)(i := w1) \<rparr>"
  have w1: "0 \<le> w1" by (simp add: w1_def)
  have g1: "nonNegative g1" using assms(1) w1 by (simp add: nonNegative_def g1_def)
  show ?thesis
  proof (cases "waterMap gr i \<le> 0.01")
    case True
    then show ?thesis using assms(1) by (simp add: cellStep_def i_def Let_def)
  next
    case wet: False
    show ?thesis
    proof (cases "w1 \<le> 0")
      case True
      have "cellStep ss y x gr = g1\<lparr> wetnessMap := (wetnessMap g1)(i := 0) \<rparr>"
        using wet True by (simp add: cellStep_def Let_def i_def[symmetric] w1_def[symmetric] g1_def[symmetric])
      then show ?thesis using g1 by (simp add: nonNegative_def)
    next
      case False
      define st0 where "st0 = \<lparr> fs_grid = g1, amountToFlow = w1 * diffusionSpeed ss, totalWater = w1 \<rparr>"
      have c: "cellStep ss y x gr = fs_grid (fold (visit i) (neighbors ss x y) st0)"
        using wet False
        by (simp add: cellStep_def Let_def i_def[symmetric] w1_def[symmetric] g1_def[symmetric] st0_def)
      have "w1 * diffusionSpeed ss \<le> w1 * 1" using w1 assms(3) by (intro mult_left_mono) simp_all
      then have "flowInv i st0"
        using g1 w1 assms(2) by (simp add: flowInv_def st0_def g1_def)
      from fold_visit_flowInv[OF this i] show ?thesis unfolding c by (simp add: flowInv_def)
    qed
  qed
qed

lemma sweep_nonNegative:
  assumes "0 \<le> diffusionSpeed ss" "diffusionSpeed ss \<le> 1"
    and "\<forall>c \<in> set cs. 0 \<le> snd c \<and> snd c < SIM_W \<and> 0 \<le> fst c \<and> fst c < SIM_H"
    and "nonNegative gr"
  shows "nonNegative (fold (\<lambda>c. cellStep ss (fst c) (snd c)) cs gr)"
  using assms(3,4)
proof (induction cs arbitrary: gr)
  case Nil
  then show ?case by simp
next
  case (Cons c cs)
  then have a: "0 \<le> snd c" "snd c < SIM_W" "0 \<le> fst c" "fst c < SIM_H"
    and b: "\<forall>c \<in> set cs. 0 \<le> snd c \<and> snd c < SIM_W \<and> 0 \<le> fst c \<and> fst c < SIM_H" by simp_all
  have "nonNegative (cellStep ss (fst c) (snd c) gr)"
    by (rule cellStep_nonNegative[OF Cons.prems(2) assms(1,2) a])
  from Cons.IH[OF b this] show ?case by simp
qed

lemma updateSimulation_nonNegative:
  assumes "nonNegative gr" "0 \<le> diffusionSpeed ss" "diffusionSpeed ss \<le> 1"
  shows "nonNegative (updateSimulation ss gr)"
  using sweep_nonNegative[OF assms(2,3) _ assms(1), of sweepOrder] sweepOrder_range assms(1)
  by (simp add: updateSimulation_flat)

subsection \<open>Stamps keep the grid non-negative and capped\<close>


lemma cell_decompose:
  assumes "i \<in> cells"
  shows "i = (i div SIM_W) * SIM_W + (i mod SIM_W)" "0 \<le> i mod SIM_W" "i mod SIM_W < SIM_W"
  by (simp_all add: SIM_W_def)

lemma falloffAt_range:
  assumes "covered simX simY simRadius cy cx" "1 \<le> simRadius"
  shows "0 \<le> falloffAt simX simY simRadius cy cx" "falloffAt simX simY simRadius cy cx \<le> 1"
proof -
  define d where "d = real_of_int ((cx - simX) ^ 2 + (cy - simY) ^ 2)"
  have d: "0 \<le> d" "d \<le> simRadius * simRadius"
    using assms(1) by (simp_all add: d_def covered_def)
  have r: "0 < simRadius * simRadius" using assms(2) by simp
  have "d / (simRadius * simRadius) \<le> 1" using d(2) r by (simp add: divide_le_eq_1)
  moreover have "0 \<le> d / (simRadius * simRadius)" using d(1) r by simp
  ultimately show "0 \<le> falloffAt simX simY simRadius cy cx" "falloffAt simX simY simRadius cy cx \<le> 1"
    by (simp_all add: falloffAt_def d_def)
qed

lemma amount_range:
  assumes "covered simX simY simRadius cy cx" "1 \<le> simRadius" "0 \<le> pressure bs" "pressure bs \<le> 1"
  shows "0 \<le> falloffAt simX simY simRadius cy cx * pressure bs"
    and "falloffAt simX simY simRadius cy cx * pressure bs \<le> 1"
proof -
  note f = falloffAt_range[OF assms(1,2)]
  show "0 \<le> falloffAt simX simY simRadius cy cx * pressure bs" using f(1) assms(3) by simp
  show "falloffAt simX simY simRadius cy cx * pressure bs \<le> 1"
    using f(2) assms(3,4) by (rule mult_le_one)
qed

lemma lerp_nonneg:
  fixes p c a :: real
  assumes "0 \<le> p" "0 \<le> c" "0 \<le> a" "a \<le> 1"
  shows "0 \<le> p * (1 - a) + c * a"
proof -
  have "0 \<le> p * (1 - a)" using assms by simp
  moreover have "0 \<le> c * a" using assms by simp
  ultimately show ?thesis by simp
qed

lemma stampRule_nonneg:
  assumes "0 \<le> a" "a \<le> 1" "brushInRange bs" "colorInRange color"
    and "0 \<le> w" "0 \<le> r" "0 \<le> g" "0 \<le> b"
    and "stampRule tool color bs a (w, wet, r, g, b) = (w', wet', r', g', b')"
  shows "0 \<le> w' \<and> 0 \<le> r' \<and> 0 \<le> g' \<and> 0 \<le> b'"
proof -
  define al where "al = a * (pigmentLoad bs / 100) * 0.5"
  have pl: "0 \<le> pigmentLoad bs / 100" "pigmentLoad bs / 100 \<le> 1"
    using assms(3) by (simp_all add: brushInRange_def)
  have "a * (pigmentLoad bs / 100) \<le> 1" using assms(1,2) pl by (intro mult_le_one) simp_all
  moreover have "0 \<le> a * (pigmentLoad bs / 100)" using assms(1) pl(1) by simp
  ultimately have al: "0 \<le> al" "al \<le> 1" by (simp_all add: al_def)
  have wl: "0 \<le> a * (waterLoad bs / 20)" "0 \<le> a * (waterLoad bs / 10)"
    using assms(1,3) by (simp_all add: brushInRange_def)
  have er: "0 \<le> 1 - a * 0.5" using assms(2) by simp
  have col: "0 \<le> rgb_r color" "0 \<le> rgb_g color" "0 \<le> rgb_b color"
    using assms(4) by (simp_all add: colorInRange_def)
  show ?thesis
  proof (cases tool)
    case BRUSH
    then show ?thesis
      using assms(9) wl(1) assms(5) lerp_nonneg[OF assms(6) col(1) al]
        lerp_nonneg[OF assms(7) col(2) al] lerp_nonneg[OF assms(8) col(3) al]
      by (auto simp: stampRule_def al_def)
  next
    case WATER
    then show ?thesis using assms(9) wl(2) assms(5-8) by (auto simp: stampRule_def)
  next
    case DRY
    then show ?thesis using assms(9) assms(5-8) by (auto simp: stampRule_def)
  next
    case ERASER
    then show ?thesis using assms(9) assms(5-8) er by (auto simp: stampRule_def)
  next
    case BLOW
    then show ?thesis using assms(9) assms(5-8) by (auto simp: stampRule_def)
  qed
qed

lemma stampRule_capped:
  assumes "0 \<le> a" "a \<le> 1" "0 \<le> w" "w \<le> 10"
    and "stampRule tool color bs a (w, wet, r, g, b) = (w', wet', r', g', b')"
  shows "w' \<le> 10"
proof (cases tool)
  case ERASER
  have "w * (1 - a * 0.5) \<le> w * 1" using assms(1,3) by (intro mult_left_mono) simp_all
  then show ?thesis using ERASER assms(4,5) by (auto simp: stampRule_def)
qed (use assms in \<open>auto simp: stampRule_def\<close>)

lemma stamp_nonNegative:
  assumes "nonNegative gr" "brushInRange bs" "colorInRange color" "1 \<le> simRadius"
  shows "nonNegative (stamp tool color bs simX simY simRadius gr)"
  unfolding nonNegative_def
proof
  fix i assume i: "i \<in> cells"
  define cy where "cy = i div SIM_W"
  define cx where "cx = i mod SIM_W"
  note dc = cell_decompose[OF i, folded cy_def cx_def]
  have old: "0 \<le> waterMap gr i" "0 \<le> pigmentR gr i" "0 \<le> pigmentG gr i" "0 \<le> pigmentB gr i"
    using assms(1) i by (simp_all add: nonNegative_def)
  let ?g = "stamp tool color bs simX simY simRadius gr"
  show "0 \<le> waterMap ?g i \<and> 0 \<le> pigmentR ?g i \<and> 0 \<le> pigmentG ?g i \<and> 0 \<le> pigmentB ?g i"
  proof (cases "covered simX simY simRadius cy cx")
    case True
    have pr: "0 \<le> pressure bs" "pressure bs \<le> 1" using assms(2) by (simp_all add: brushInRange_def)
    note am = amount_range[OF True assms(4) pr]
    have "cellOf ?g i = stampRule tool color bs (falloffAt simX simY simRadius cy cx * pressure bs) (cellOf gr i)"
      using stamp_cellOf[OF dc(2,3), of tool color bs simX simY simRadius gr cy] True dc(1) by simp
    then have "stampRule tool color bs (falloffAt simX simY simRadius cy cx * pressure bs)
                 (waterMap gr i, wetnessMap gr i, pigmentR gr i, pigmentG gr i, pigmentB gr i)
               = (waterMap ?g i, wetnessMap ?g i, pigmentR ?g i, pigmentG ?g i, pigmentB ?g i)"
      by (simp add: cellOf_def)
    from stampRule_nonneg[OF am assms(2,3) old this] show ?thesis .
  next
    case False
    have "cellOf ?g i = cellOf gr i"
      using stamp_cellOf[OF dc(2,3), of tool color bs simX simY simRadius gr cy] False dc(1) by simp
    then show ?thesis using old by (simp add: cellOf_def)
  qed
qed

lemma stamp_capped:
  assumes "nonNegative gr" "capped gr" "brushInRange bs" "1 \<le> simRadius"
  shows "capped (stamp tool color bs simX simY simRadius gr)"
  unfolding capped_def
proof
  fix i assume i: "i \<in> cells"
  define cy where "cy = i div SIM_W"
  define cx where "cx = i mod SIM_W"
  note dc = cell_decompose[OF i, folded cy_def cx_def]
  have old: "0 \<le> waterMap gr i" "waterMap gr i \<le> 10"
    using assms(1,2) i by (simp_all add: nonNegative_def capped_def)
  let ?g = "stamp tool color bs simX simY simRadius gr"
  show "waterMap ?g i \<le> 10"
  proof (cases "covered simX simY simRadius cy cx")
    case True
    have pr: "0 \<le> pressure bs" "pressure bs \<le> 1" using assms(3) by (simp_all add: brushInRange_def)
    note am = amount_range[OF True assms(4) pr]
    have "cellOf ?g i = stampRule tool color bs (falloffAt simX simY simRadius cy cx * pressure bs) (cellOf gr i)"
      using stamp_cellOf[OF dc(2,3), of tool color bs simX simY simRadius gr cy] True dc(1) by simp
    then have "stampRule tool color bs (falloffAt simX simY simRadius cy cx * pressure bs)
                 (waterMap gr i, wetnessMap gr i, pigmentR gr i, pigmentG gr i, pigmentB gr i)
               = (waterMap ?g i, wetnessMap ?g i, pigmentR ?g i, pigmentG ?g i, pigmentB ?g i)"
      by (simp add: cellOf_def)
    from stampRule_capped[OF am old this] show ?thesis .
  next
    case False
    have "cellOf ?g i = cellOf gr i"
      using stamp_cellOf[OF dc(2,3), of tool color bs simX simY simRadius gr cy] False dc(1) by simp
    then show ?thesis using old by (simp add: cellOf_def)
  qed
qed

subsection \<open>The cap under transport, and runs of operations\<close>


lemma transfer_capped:
  assumes "flowInv i st" "capped (fs_grid st)" "i \<in> cells" "0 < flow"
    and "flow \<le> (totalWater st - waterMap (fs_grid st) n) * 0.1"
  shows "capped (fs_grid (transfer i n flow st))"
  unfolding capped_def
proof
  fix j assume j: "j \<in> cells"
  define gr where "gr = fs_grid st"
  have t: "totalWater st \<le> waterMap gr i" using assms(1) by (simp add: flowInv_def gr_def)
  have ci: "waterMap gr i \<le> 10" and cj: "waterMap gr j \<le> 10"
    using assms(2,3) j by (simp_all add: capped_def gr_def)
  have f: "flow \<le> (totalWater st - waterMap gr n) * 0.1" using assms(5) by (simp add: gr_def)
  have "waterMap gr n + flow \<le> totalWater st" using f assms(4) by simp
  then have n: "waterMap gr n + flow \<le> 10" using t ci by simp
  show "waterMap (fs_grid (transfer i n flow st)) j \<le> 10"
    using ci cj n assms(4) by (auto simp: transfer_water gr_def[symmetric])
qed

lemma visit_capped:
  assumes "flowInv i st" "capped (fs_grid st)" "i \<in> cells" "snd nb = 0"
  shows "capped (fs_grid (visit i nb st))"
proof (cases "amountToFlow st \<le> 0 \<or> \<not> gradientOf st nb > 0 \<or> \<not> flowOf st nb > 0.001")
  case True
  then have "visit i nb st = st" by (auto simp: visit_unfold)
  then show ?thesis using assms(2) by simp
next
  case False
  then have v: "visit i nb st = transfer i (fst nb) (flowOf st nb) st" by (simp add: visit_unfold)
  have a: "0 < flowOf st nb" using False by simp
  have b: "flowOf st nb \<le> (totalWater st - waterMap (fs_grid st) (fst nb)) * 0.1"
  proof -
    have "flowOf st nb \<le> gradientOf st nb * 0.1" unfolding flowOf_def by (rule min.cobounded2)
    then show ?thesis using assms(4) by (simp add: gradientOf_def)
  qed
  show ?thesis unfolding v by (rule transfer_capped[OF assms(1-3) a b])
qed

lemma fold_visit_capped:
  assumes "i \<in> cells" "\<forall>nb \<in> set nbs. snd nb = 0" "flowInv i st" "capped (fs_grid st)"
  shows "capped (fs_grid (fold (visit i) nbs st))"
  using assms(2-4)
proof (induction nbs arbitrary: st)
  case Nil
  then show ?case by simp
next
  case (Cons nb nbs)
  then have a: "snd nb = 0" and b: "\<forall>nb \<in> set nbs. snd nb = 0" by simp_all
  have c: "flowInv i (visit i nb st)" by (rule visit_flowInv[OF Cons.prems(2) assms(1)])
  have d: "capped (fs_grid (visit i nb st))" by (rule visit_capped[OF Cons.prems(2,3) assms(1) a])
  from Cons.IH[OF b c d] show ?case by simp
qed

lemma cellStep_capped:
  assumes "nonNegative gr" "capped gr" "0 \<le> diffusionSpeed ss" "diffusionSpeed ss \<le> 1"
    and "0 \<le> evaporationRate ss" "gravityX ss = 0" "gravityY ss = 0"
    and "0 \<le> x" "x < SIM_W" "0 \<le> y" "y < SIM_H"
  shows "capped (cellStep ss y x gr)"
proof -
  define i where "i = y * SIM_W + x"
  have i: "i \<in> cells" unfolding i_def by (rule index_in_cells[OF assms(8-11)])
  define w1 where "w1 = max 0 (waterMap gr i - evaporationRate ss)"
  define g1 where "g1 = gr\<lparr> waterMap := (waterMap gr)(i := w1) \<rparr>"
  have wi: "waterMap gr i \<le> 10" using assms(2) i by (simp add: capped_def)
  have w1: "0 \<le> w1" "w1 \<le> 10" using wi assms(5) by (simp_all add: w1_def)
  have g1: "nonNegative g1" using assms(1) w1 by (simp add: nonNegative_def g1_def)
  have g1c: "capped g1" using assms(2) w1 by (simp add: capped_def g1_def)
  show ?thesis
  proof (cases "waterMap gr i \<le> 0.01")
    case True
    then show ?thesis using assms(2) by (simp add: cellStep_def i_def Let_def)
  next
    case wet: False
    show ?thesis
    proof (cases "w1 \<le> 0")
      case True
      have "cellStep ss y x gr = g1\<lparr> wetnessMap := (wetnessMap g1)(i := 0) \<rparr>"
        using wet True by (simp add: cellStep_def Let_def i_def[symmetric] w1_def[symmetric] g1_def[symmetric])
      then show ?thesis using g1c by (simp add: capped_def)
    next
      case False
      define st0 where "st0 = \<lparr> fs_grid = g1, amountToFlow = w1 * diffusionSpeed ss, totalWater = w1 \<rparr>"
      have c: "cellStep ss y x gr = fs_grid (fold (visit i) (neighbors ss x y) st0)"
        using wet False
        by (simp add: cellStep_def Let_def i_def[symmetric] w1_def[symmetric] g1_def[symmetric] st0_def)
      have "w1 * diffusionSpeed ss \<le> w1 * 1" using w1 assms(4) by (intro mult_left_mono) simp_all
      then have inv: "flowInv i st0"
        using g1 w1 assms(3) by (simp add: flowInv_def st0_def g1_def)
      have z: "\<forall>nb \<in> set (neighbors ss x y). snd nb = 0"
        using assms(6,7) by (simp add: neighbors_def)
      have "capped (fs_grid st0)" using g1c by (simp add: st0_def)
      from fold_visit_capped[OF i z inv this] show ?thesis unfolding c .
    qed
  qed
qed

lemma sweep_capped:
  assumes "0 \<le> diffusionSpeed ss" "diffusionSpeed ss \<le> 1"
    and "0 \<le> evaporationRate ss" "gravityX ss = 0" "gravityY ss = 0"
    and "\<forall>c \<in> set cs. 0 \<le> snd c \<and> snd c < SIM_W \<and> 0 \<le> fst c \<and> fst c < SIM_H"
    and "nonNegative gr" "capped gr"
  shows "capped (fold (\<lambda>c. cellStep ss (fst c) (snd c)) cs gr)"
  using assms(6-8)
proof (induction cs arbitrary: gr)
  case Nil
  then show ?case by simp
next
  case (Cons c cs)
  then have a: "0 \<le> snd c" "snd c < SIM_W" "0 \<le> fst c" "fst c < SIM_H"
    and b: "\<forall>c \<in> set cs. 0 \<le> snd c \<and> snd c < SIM_W \<and> 0 \<le> fst c \<and> fst c < SIM_H" by simp_all
  have n: "nonNegative (cellStep ss (fst c) (snd c) gr)"
    by (rule cellStep_nonNegative[OF Cons.prems(2) assms(1,2) a])
  have k: "capped (cellStep ss (fst c) (snd c) gr)"
    by (rule cellStep_capped[OF Cons.prems(2,3) assms(1-5) a])
  from Cons.IH[OF b n k] show ?case by simp
qed

lemma updateSimulation_capped:
  assumes "nonNegative gr" "capped gr" "0 \<le> diffusionSpeed ss" "diffusionSpeed ss \<le> 1"
    and "0 \<le> evaporationRate ss" "gravityX ss = 0" "gravityY ss = 0"
  shows "capped (updateSimulation ss gr)"
  using sweep_capped[OF assms(3-7) _ assms(1,2), of sweepOrder] sweepOrder_range assms(2)
  by (simp add: updateSimulation_flat)

lemma applyOp_nonNegative:
  "opInRange op \<Longrightarrow> nonNegative gr \<Longrightarrow> nonNegative (applyOp op gr)"
  by (cases op) (simp_all add: stamp_nonNegative updateSimulation_nonNegative simInRange_def)

lemma applyOp_capped:
  "opInRange op \<Longrightarrow> zeroGravity op \<Longrightarrow> nonNegative gr \<Longrightarrow> capped gr \<Longrightarrow> capped (applyOp op gr)"
  by (cases op) (simp_all add: stamp_capped updateSimulation_capped simInRange_def)

lemma run_nonNegative:
  "\<forall>op \<in> set ops. opInRange op \<Longrightarrow> nonNegative gr \<Longrightarrow> nonNegative (run ops gr)"
  unfolding run_def by (induction ops arbitrary: gr) (simp_all add: applyOp_nonNegative)

lemma run_capped:
  "\<forall>op \<in> set ops. opInRange op \<and> zeroGravity op \<Longrightarrow> nonNegative gr \<Longrightarrow> capped gr \<Longrightarrow>
   capped (run ops gr)"
  unfolding run_def
  by (induction ops arbitrary: gr) (simp_all add: applyOp_nonNegative applyOp_capped)

lemma emptyGrid_nonNegative: "nonNegative emptyGrid"
  by (simp add: nonNegative_def emptyGrid_def)

lemma emptyGrid_capped: "capped emptyGrid"
  by (simp add: capped_def emptyGrid_def)

text \<open>
  Claim C5. From a grid without negative water or pigment values, neither a stamp whose
  brush settings and colour are in their documented ranges (the pressure in \<open>[0, 1]\<close>; the
  radius is at least 1, as \<open>applyBrush\<close> computes it) nor a transport step whose settings
  are in their documented ranges produces a negative water or pigment value.
\<close>

theorem stamp_and_transport_keep_nonnegative:
  assumes "nonNegative gr"
    and "brushInRange bs" and "colorInRange color" and "1 \<le> simRadius"
    and "simInRange ss"
  shows "nonNegative (stamp tool color bs simX simY simRadius gr)
       \<and> nonNegative (updateSimulation ss gr)"
  using stamp_nonNegative[OF assms(1-4)] updateSimulation_nonNegative[OF assms(1), of ss] assms(5)
  by (simp add: simInRange_def)

text \<open>
  Claim C2, as amended. Starting from the all-zero grid, after any finite sequence of stamps
  and transport steps with parameters in their documented ranges every cell's water is at
  least 0; and it is at most 10 provided every transport step of the sequence runs with
  \<open>gravityX = gravityY = 0\<close>.
\<close>

theorem water_bounds_along_runs:
  assumes "\<forall>op \<in> set ops. opInRange op" and "i \<in> cells"
  shows "0 \<le> waterMap (run ops emptyGrid) i
       \<and> ((\<forall>op \<in> set ops. zeroGravity op) \<longrightarrow> waterMap (run ops emptyGrid) i \<le> 10)"
proof -
  have "nonNegative (run ops emptyGrid)"
    by (rule run_nonNegative[OF assms(1) emptyGrid_nonNegative])
  then have a: "0 \<le> waterMap (run ops emptyGrid) i" using assms(2) by (simp add: nonNegative_def)
  have "waterMap (run ops emptyGrid) i \<le> 10" if z: "\<forall>op \<in> set ops. zeroGravity op"
  proof -
    have "\<forall>op \<in> set ops. opInRange op \<and> zeroGravity op" using assms(1) z by simp
    from run_capped[OF this emptyGrid_nonNegative emptyGrid_capped] assms(2)
    show ?thesis by (simp add: capped_def)
  qed
  with a show ?thesis by simp
qed

subsection \<open>Evaluating a sweep\<close>


lemma cellStep_dry:
  "waterMap gr (y * SIM_W + x) \<le> 0.01 \<Longrightarrow> cellStep ss y x gr = gr"
  by (simp add: cellStep_def Let_def)

lemma sweep_dry:
  "\<forall>c \<in> set cs. waterMap gr (fst c * SIM_W + snd c) \<le> 0.01 \<Longrightarrow>
   fold (\<lambda>c. cellStep ss (fst c) (snd c)) cs gr = gr"
  by (induction cs) (simp_all add: cellStep_dry)

lemma lossAlong_dry:
  "\<forall>c \<in> set cs. waterMap gr (fst c * SIM_W + snd c) \<le> 0.01 \<Longrightarrow> lossAlong ss cs gr = 0"
  by (induction cs) (simp_all add: cellStep_dry evapLoss_def)

lemma lossAlong_append:
  "lossAlong ss (cs @ ds) gr =
     lossAlong ss cs gr + lossAlong ss ds (fold (\<lambda>c. cellStep ss (fst c) (snd c)) cs gr)"
  by (induction cs arbitrary: gr) simp_all

lemma product_append:
  "List.product (xs @ ys) zs = List.product xs zs @ List.product ys zs"
  by (induction xs) simp_all

lemma sweepOrder_first_row:
  "sweepOrder = (map (Pair 0) [0 .. 397] @ [(0, 398), (0, 399)]) @ List.product [1 .. 299] [0 .. 399]"
proof -
  have r: "[0 .. 299] = [0] @ [1 .. (299::int)]" by (simp add: upto_rec1)
  have c: "[0 .. 399] = [0 .. 397] @ [398, (399::int)]"
    using upto_split2[of 0 397 "399::int"] by (simp add: upto_rec1)
  have "map (Pair (0::int)) [0 .. 399] = map (Pair 0) [0 .. 397] @ [(0, 398), (0, 399)]"
    unfolding c by simp
  then show ?thesis
    unfolding sweepOrder_def SIM_W_def SIM_H_def
    by (simp add: r product_append)
qed

lemma sweepOrder_last_row:
  "sweepOrder = (List.product [0 .. 298] [0 .. 399] @ map (Pair 299) [0 .. 397]) @ [(299, 398), (299, 399)]"
proof -
  have r: "[0 .. 299] = [0 .. 298] @ [299::int]" by (simp add: upto_rec2)
  have c: "[0 .. 399] = [0 .. 397] @ [398, (399::int)]"
    using upto_split2[of 0 397 "399::int"] by (simp add: upto_rec1)
  have "map (Pair (299::int)) [0 .. 399] = map (Pair 299) [0 .. 397] @ [(299, 398), (299, 399)]"
    unfolding c by simp
  then show ?thesis
    unfolding sweepOrder_def SIM_W_def SIM_H_def
    by (simp add: r product_append)
qed

subsection \<open>A drop in the last row\<close>


lemma dropGrid_water: "waterMap dropGrid j = (if j = 119998 then 10 else 0)"
  by (simp add: dropGrid_def emptyGrid_def SIM_W_def)

lemma dropGrid_neighbors:
  "neighbors levelPaper 398 299 = [(119999, 0), (119997, 0), (119998, 0), (119598, 0)]"
  by (simp add: neighbors_def idx_def Let_def SIM_W_def SIM_H_def levelPaper_def)

lemma dropGrid_first_visit:
  "visit 119998 (119999, 0)
     \<lparr> fs_grid = dropGrid\<lparr> waterMap := (waterMap dropGrid)(119998 := 199 / 20) \<rparr>,
       amountToFlow = 199 / 200, totalWater = 199 / 20 \<rparr>
   = transfer 119998 119999 (199 / 200)
     \<lparr> fs_grid = dropGrid\<lparr> waterMap := (waterMap dropGrid)(119998 := 199 / 20) \<rparr>,
       amountToFlow = 199 / 200, totalWater = 199 / 20 \<rparr>"
  by (simp add: visit_unfold gradientOf_def flowOf_def dropGrid_water)

lemma visit_spent: "amountToFlow st \<le> 0 \<Longrightarrow> visit i nb st = st"
  by (simp add: visit_unfold)

lemma fold_visit_spent: "amountToFlow st \<le> 0 \<Longrightarrow> fold (visit i) nbs st = st"
  by (induction nbs) (simp_all add: visit_spent)

lemma dropGrid_step:
  "cellStep levelPaper 299 398 dropGrid
   = fs_grid (transfer 119998 119999 (199 / 200)
     \<lparr> fs_grid = dropGrid\<lparr> waterMap := (waterMap dropGrid)(119998 := 199 / 20) \<rparr>,
       amountToFlow = 199 / 200, totalWater = 199 / 20 \<rparr>)"
proof -
  have e: "evaporationRate levelPaper = 1 / 20" "diffusionSpeed levelPaper = 1 / 10"
    by (simp_all add: levelPaper_def)
  have i: "299 * SIM_W + 398 = 119998" by (simp add: SIM_W_def)
  have "cellStep levelPaper 299 398 dropGrid
        = fs_grid (fold (visit 119998) [(119999, 0), (119997, 0), (119998, 0), (119598, 0)]
            \<lparr> fs_grid = dropGrid\<lparr> waterMap := (waterMap dropGrid)(119998 := 199 / 20) \<rparr>,
              amountToFlow = 199 / 200, totalWater = 199 / 20 \<rparr>)"
    by (simp add: cellStep_def Let_def i dropGrid_water e dropGrid_neighbors)
  also have "\<dots> = fs_grid (fold (visit 119998) [(119997, 0), (119998, 0), (119598, 0)]
       (transfer 119998 119999 (199 / 200)
     \<lparr> fs_grid = dropGrid\<lparr> waterMap := (waterMap dropGrid)(119998 := 199 / 20) \<rparr>,
       amountToFlow = 199 / 200, totalWater = 199 / 20 \<rparr>))"
    by (simp add: dropGrid_first_visit)
  also have "\<dots> = fs_grid (transfer 119998 119999 (199 / 200)
     \<lparr> fs_grid = dropGrid\<lparr> waterMap := (waterMap dropGrid)(119998 := 199 / 20) \<rparr>,
       amountToFlow = 199 / 200, totalWater = 199 / 20 \<rparr>)"
    by (subst fold_visit_spent) (simp_all add: transfer_locals)
  finally show ?thesis .
qed

lemma dropGrid_step_water:
  "waterMap (cellStep levelPaper 299 398 dropGrid) 119999 = 199 / 200"
  by (simp add: dropGrid_step transfer_water dropGrid_water)

lemma dropGrid_prefix_dry:
  "\<forall>c \<in> set (List.product [0 .. 298] [0 .. 399] @ map (Pair 299) [0 .. 397]).
     waterMap dropGrid (fst c * SIM_W + snd c) \<le> 0.01"
proof
  fix c assume "c \<in> set (List.product [0 .. 298] [0 .. 399] @ map (Pair 299) [0 .. 397])"
  then have "(fst c \<le> 298 \<and> snd c \<le> 399) \<or> (fst c = 299 \<and> snd c \<le> 397)" by auto
  then have "fst c * 400 + snd c \<noteq> 119998" by linarith
  then show "waterMap dropGrid (fst c * SIM_W + snd c) \<le> 0.01"
    by (simp add: dropGrid_water SIM_W_def)
qed

lemma dropGrid_loss: "lossAlong levelPaper sweepOrder dropGrid = 1 / 10"
proof -
  have e: "evaporationRate levelPaper = 1 / 20" by (simp add: levelPaper_def)
  have a: "evapLoss levelPaper 299 398 dropGrid = 1 / 20"
    by (simp add: evapLoss_def dropGrid_water SIM_W_def e)
  have b: "evapLoss levelPaper 299 399 (cellStep levelPaper 299 398 dropGrid) = 1 / 20"
    by (simp add: evapLoss_def dropGrid_step_water SIM_W_def e)
  define pre where "pre = List.product [0 .. 298] [0 .. 399] @ map (Pair (299::int)) [0 .. 397]"
  have dry: "\<forall>c \<in> set pre. waterMap dropGrid (fst c * SIM_W + snd c) \<le> 0.01"
    unfolding pre_def by (rule dropGrid_prefix_dry)
  have "lossAlong levelPaper sweepOrder dropGrid
        = lossAlong levelPaper pre dropGrid
          + lossAlong levelPaper [(299, 398), (299, 399)]
              (fold (\<lambda>c. cellStep levelPaper (fst c) (snd c)) pre dropGrid)"
    unfolding sweepOrder_last_row pre_def[symmetric] by (rule lossAlong_append)
  also have "\<dots> = lossAlong levelPaper [(299, 398), (299, 399)] dropGrid"
    by (simp add: lossAlong_dry[OF dry] sweep_dry[OF dry])
  also have "\<dots> = 1 / 10" using a b by simp
  finally show ?thesis .
qed

lemma dropGrid_sum: "gridSum (waterMap dropGrid) = 10"
proof -
  have "299 * SIM_W + 398 \<in> cells" by (simp add: cells_def SIM_W_def SIM_H_def)
  from gridSum_upd[OF this, of "\<lambda>_. 0" 10] show ?thesis
    by (simp add: dropGrid_def emptyGrid_def gridSum_def)
qed

lemma filter_upto_single:
  assumes "a \<le> k" "k \<le> b" "\<forall>i. P i \<longleftrightarrow> i = k"
  shows "filter P [a .. b] = [k]"
proof -
  have "[a .. b] = [a .. k - 1] @ k # [k + 1 .. b]" using assms(1,2) by (rule upto_split3)
  moreover have "filter P [a .. k - 1] = []" "filter P [k + 1 .. b] = []"
    using assms(3) by (auto simp: filter_empty_conv)
  ultimately show ?thesis using assms(3) by simp
qed

lemma dropGrid_wetCount: "wetCount dropGrid = 1"
proof -
  have "filter (\<lambda>i. waterMap dropGrid i > 0.01) [0 .. SIM_W * SIM_H - 1] = [119998]"
    by (rule filter_upto_single) (simp_all add: dropGrid_water SIM_W_def SIM_H_def)
  then show ?thesis by (simp add: wetCount_def)
qed

text \<open>
  Claim C3, as amended. For every grid state and every setting, one transport step satisfies
  \<open>sum(water_after) = sum(water_before) - evaporated\<close>, where \<open>evaporated\<close> adds up, over
  the cells in sweep order, \<open>min(water, evaporationRate)\<close> for each cell whose water is above
  0.01 at the moment the sweep reaches it (and 0 for the others): transfers move water
  without changing the total, and a cell wetted earlier in the same sweep evaporates too.
\<close>

theorem transport_water_balance:
  "gridSum (waterMap (updateSimulation ss gr)) = gridSum (waterMap gr) - evaporated ss gr"
proof (cases "paused ss")
  case True
  then show ?thesis by (simp add: updateSimulation_def evaporated_def)
next
  case False
  have "gridSum (waterMap (fold (\<lambda>c. cellStep ss (fst c) (snd c)) sweepOrder gr))
        = gridSum (waterMap gr) - lossAlong ss sweepOrder gr"
    by (rule sweep_water) (simp add: sweepOrder_range)
  with False show ?thesis by (simp add: updateSimulation_flat evaporated_def)
qed

text \<open>
  The balance of claim C3 counts the cells wet before the step. With 10 units of water in
  the cell \<open>(398, 299)\<close> alone, level paper, diffusion 0.1 and evaporation 0.05, the sweep
  first moves 0.995 units into the dry cell \<open>(399, 299)\<close> and then evaporates that cell too:
  the total after the step is 9.9, while the claimed balance gives \<open>10 - 0.05 * 1 = 9.95\<close>.
\<close>

theorem transport_evaporates_freshly_wetted_cell:
  "simInRange levelPaper
   \<and> gridSum (waterMap (updateSimulation levelPaper dropGrid)) = 99 / 10
   \<and> gridSum (waterMap dropGrid) - evaporationRate levelPaper * real (wetCount dropGrid) = 199 / 20"
proof -
  have p: "\<not> paused levelPaper" by (simp add: levelPaper_def)
  have "gridSum (waterMap (fold (\<lambda>c. cellStep levelPaper (fst c) (snd c)) sweepOrder dropGrid))
        = gridSum (waterMap dropGrid) - lossAlong levelPaper sweepOrder dropGrid"
    by (rule sweep_water) (simp add: sweepOrder_range)
  then have "gridSum (waterMap (updateSimulation levelPaper dropGrid)) = 99 / 10"
    using p by (simp add: updateSimulation_flat dropGrid_loss dropGrid_sum)
  moreover have "gridSum (waterMap dropGrid) - evaporationRate levelPaper * real (wetCount dropGrid) = 199 / 20"
    by (simp add: dropGrid_sum dropGrid_wetCount levelPaper_def)
  moreover have "simInRange levelPaper" by (simp add: simInRange_def levelPaper_def)
  ultimately show ?thesis by simp
qed

subsection \<open>Two soaked cells on tilted paper\<close>


lemma soak_stamp_water:
  assumes "0 \<le> cx" "cx < SIM_W"
    and "0 \<le> waterMap gr (cy * SIM_W + cx)" "waterMap gr (cy * SIM_W + cx) \<le> 10"
  shows "waterMap (stamp WATER color soakBrush sx sy 1 gr) (cy * SIM_W + cx) =
     (if covered sx sy 1 cy cx \<and> cy = sy \<and> cx = sx then 10 else waterMap gr (cy * SIM_W + cx))"
proof -
  define d where "d = (cx - sx) ^ 2 + (cy - sy) ^ 2"
  have c: "cellOf (stamp WATER color soakBrush sx sy 1 gr) (cy * SIM_W + cx) =
     (if covered sx sy 1 cy cx
      then stampRule WATER color soakBrush (falloffAt sx sy 1 cy cx * pressure soakBrush)
             (cellOf gr (cy * SIM_W + cx))
      else cellOf gr (cy * SIM_W + cx))"
    by (rule stamp_cellOf[OF assms(1,2)])
  show ?thesis
  proof (cases "covered sx sy 1 cy cx")
    case False
    then show ?thesis using c by (simp add: cellOf_def)
  next
    case True
    then have "real_of_int d \<le> 1" by (simp add: covered_def d_def)
    then have d1: "d \<le> 1" by linarith
    have d0: "0 \<le> d" by (simp add: d_def)
    have w: "waterMap (stamp WATER color soakBrush sx sy 1 gr) (cy * SIM_W + cx)
             = min 10 (waterMap gr (cy * SIM_W + cx) + (1 - real_of_int d) * 10)"
      using c True by (simp add: cellOf_def stampRule_def falloffAt_def soakBrush_def d_def)
    show ?thesis
    proof (cases "d = 0")
      case d: True
      then have "cx = sx \<and> cy = sy" by (simp add: d_def)
      then show ?thesis using w d True assms(3) by simp
    next
      case False
      then have "d = 1" using d0 d1 by linarith
      moreover have "\<not> (cy = sy \<and> cx = sx)" using False by (auto simp: d_def)
      ultimately show ?thesis using w assms(4) by auto
    qed
  qed
qed

lemma soaked_pair_water:
  assumes "0 \<le> cx" "cx < 400"
  shows "waterMap (stamp WATER defaultColor soakBrush 399 0 1
                    (stamp WATER defaultColor soakBrush 398 0 1 emptyGrid)) (cy * 400 + cx)
         = (if cy = 0 \<and> (cx = 398 \<or> cx = 399) then 10 else 0)"
proof -
  have x: "0 \<le> cx" "cx < SIM_W" using assms by (simp_all add: SIM_W_def)
  have c1: "covered 398 0 1 0 398" by (simp add: covered_def SIM_W_def SIM_H_def)
  have c2: "covered 399 0 1 0 399" by (simp add: covered_def SIM_W_def SIM_H_def)
  have a: "waterMap (stamp WATER defaultColor soakBrush 398 0 1 emptyGrid) (cy * SIM_W + cx)
           = (if cy = 0 \<and> cx = 398 then 10 else 0)"
    using soak_stamp_water[OF x, of emptyGrid cy defaultColor 398 0] c1
    by (auto simp: emptyGrid_def)
  have b: "waterMap (stamp WATER defaultColor soakBrush 399 0 1
                    (stamp WATER defaultColor soakBrush 398 0 1 emptyGrid)) (cy * SIM_W + cx)
           = (if cy = 0 \<and> cx = 399 then 10
              else waterMap (stamp WATER defaultColor soakBrush 398 0 1 emptyGrid) (cy * SIM_W + cx))"
    using soak_stamp_water[OF x, of "stamp WATER defaultColor soakBrush 398 0 1 emptyGrid" cy defaultColor 399 0]
      c2 a
    by auto
  show ?thesis using a b by (auto simp: SIM_W_def)
qed

lemma tiltRight_step_398:
  assumes "waterMap gr 398 = 10" "waterMap gr 399 = 10"
  shows "waterMap (cellStep tiltRight 0 398 gr) = (waterMap gr)(398 := 99 / 10, 399 := 101 / 10)"
proof -
  define st0 where "st0 = \<lparr> fs_grid = gr\<lparr> waterMap := (waterMap gr)(398 := 10) \<rparr>,
                             amountToFlow = 1 / 10, totalWater = 10 \<rparr>"
  have n: "neighbors tiltRight 398 0 = [(399, 1 / 5), (397, - (1 / 5)), (798, 0), (398, 0)]"
    by (simp add: neighbors_def idx_def Let_def SIM_W_def SIM_H_def tiltRight_def)
  have e: "evaporationRate tiltRight = 0" "diffusionSpeed tiltRight = 1 / 100"
    by (simp_all add: tiltRight_def)
  have c: "cellStep tiltRight 0 398 gr = fs_grid (fold (visit 398) (neighbors tiltRight 398 0) st0)"
    by (simp add: cellStep_def Let_def SIM_W_def e st0_def assms)
  have v: "visit 398 (399, 1 / 5) st0 = transfer 398 399 (1 / 10) st0"
    by (simp add: visit_unfold gradientOf_def flowOf_def st0_def assms)
  have "fold (visit 398) (neighbors tiltRight 398 0) st0
        = fold (visit 398) [(397, - (1 / 5)), (798, 0), (398, 0)] (transfer 398 399 (1 / 10) st0)"
    unfolding n by (simp add: v)
  also have "\<dots> = transfer 398 399 (1 / 10) st0"
    by (rule fold_visit_spent) (simp add: transfer_locals st0_def)
  finally have "cellStep tiltRight 0 398 gr = fs_grid (transfer 398 399 (1 / 10) st0)"
    using c by simp
  then show ?thesis
    by (auto simp: fun_eq_iff transfer_water st0_def assms)
qed

lemma tiltRight_step_399:
  assumes "waterMap gr 399 = 101 / 10" "waterMap gr 398 = 99 / 10" "waterMap gr 799 = 0"
  shows "waterMap (cellStep tiltRight 0 399 gr) = waterMap gr"
proof -
  define st0 where "st0 = \<lparr> fs_grid = gr\<lparr> waterMap := (waterMap gr)(399 := 101 / 10) \<rparr>,
                             amountToFlow = 101 / 1000, totalWater = 101 / 10 \<rparr>"
  define st1 where "st1 = transfer 399 399 (1 / 10) st0"
  have n: "neighbors tiltRight 399 0 = [(399, 1 / 5), (398, - (1 / 5)), (799, 0), (399, 0)]"
    by (simp add: neighbors_def idx_def Let_def SIM_W_def SIM_H_def tiltRight_def)
  have e: "evaporationRate tiltRight = 0" "diffusionSpeed tiltRight = 1 / 100"
    by (simp_all add: tiltRight_def)
  have c: "cellStep tiltRight 0 399 gr = fs_grid (fold (visit 399) (neighbors tiltRight 399 0) st0)"
    by (simp add: cellStep_def Let_def SIM_W_def e st0_def assms)
  have v1: "visit 399 (399, 1 / 5) st0 = st1"
    by (simp add: visit_unfold gradientOf_def flowOf_def st0_def st1_def assms)
  have w1: "waterMap (fs_grid st1) = waterMap gr"
    by (auto simp: fun_eq_iff st1_def transfer_water st0_def assms)
  have l1: "amountToFlow st1 = 1 / 1000" "totalWater st1 = 10"
    by (simp_all add: st1_def transfer_locals st0_def)
  have v2: "visit 399 (398, - (1 / 5)) st1 = st1"
    by (simp add: visit_unfold gradientOf_def flowOf_def w1 l1 assms)
  have v3: "visit 399 (799, 0) st1 = st1"
    by (simp add: visit_unfold gradientOf_def flowOf_def w1 l1 assms)
  have v4: "visit 399 (399, 0) st1 = st1"
    by (simp add: visit_unfold gradientOf_def flowOf_def w1 l1 assms)
  have "fold (visit 399) (neighbors tiltRight 399 0) st0 = st1"
    unfolding n by (simp add: v1 v2 v3 v4)
  then show ?thesis using c w1 by simp
qed

lemma tilted_sweep_water:
  fixes gr :: grid
  assumes "\<And>cy cx. 0 \<le> cx \<Longrightarrow> cx < 400 \<Longrightarrow>
            waterMap gr (cy * 400 + cx) = (if cy = 0 \<and> (cx = 398 \<or> cx = 399) then 10 else 0)"
  shows "waterMap (updateSimulation tiltRight gr) 399 = 101 / 10"
proof -
  have at: "\<And>j. 0 \<le> j \<Longrightarrow> j < 400 \<Longrightarrow> waterMap gr j = (if j = 398 \<or> j = 399 then 10 else 0)"
    using assms[of _ 0] by simp
  have w398: "waterMap gr 398 = 10" and w399: "waterMap gr 399 = 10"
    using at[of 398] at[of 399] by simp_all
  have w799: "waterMap gr 799 = 0" using assms[of 399 1] by simp
  define pre where "pre = map (Pair (0::int)) [0 .. 397]"
  define rest where "rest = List.product [1 .. 299] [0 .. (399::int)]"
  define g3 where "g3 = cellStep tiltRight 0 398 gr"
  define g4 where "g4 = cellStep tiltRight 0 399 g3"
  have dry_pre: "\<forall>c \<in> set pre. waterMap gr (fst c * SIM_W + snd c) \<le> 0.01"
  proof
    fix c assume "c \<in> set pre"
    then have "fst c = 0" "0 \<le> snd c" "snd c \<le> 397" by (auto simp: pre_def)
    then show "waterMap gr (fst c * SIM_W + snd c) \<le> 0.01"
      using at[of "snd c"] by (simp add: SIM_W_def)
  qed
  have g3w: "waterMap g3 = (waterMap gr)(398 := 99 / 10, 399 := 101 / 10)"
    unfolding g3_def by (rule tiltRight_step_398[OF w398 w399])
  have g4w: "waterMap g4 = waterMap g3"
    unfolding g4_def by (rule tiltRight_step_399) (simp_all add: g3w w799)
  have dry_rest: "\<forall>c \<in> set rest. waterMap g4 (fst c * SIM_W + snd c) \<le> 0.01"
  proof
    fix c assume "c \<in> set rest"
    then have r: "1 \<le> fst c" "0 \<le> snd c" "snd c < 400" by (auto simp: rest_def)
    then have "fst c * 400 + snd c \<noteq> 398" "fst c * 400 + snd c \<noteq> 399" by linarith+
    moreover have "waterMap gr (fst c * 400 + snd c) = 0" using assms[OF r(2,3), of "fst c"] r(1) by simp
    ultimately show "waterMap g4 (fst c * SIM_W + snd c) \<le> 0.01"
      by (simp add: g4w g3w SIM_W_def)
  qed
  have p: "\<not> paused tiltRight" by (simp add: tiltRight_def)
  have "updateSimulation tiltRight gr
        = fold (\<lambda>c. cellStep tiltRight (fst c) (snd c)) ((pre @ [(0, 398), (0, 399)]) @ rest) gr"
    using p by (simp only: updateSimulation_flat sweepOrder_first_row pre_def rest_def if_False)
  also have "\<dots> = fold (\<lambda>c. cellStep tiltRight (fst c) (snd c)) rest g4"
    by (simp add: sweep_dry[OF dry_pre] g3_def g4_def)
  also have "\<dots> = g4" by (rule sweep_dry[OF dry_rest])
  finally show ?thesis by (simp add: g4w g3w)
qed

text \<open>
  The upper bound of claim C2 fails. Two WATER stamps of radius 1 at full pressure and water
  load fill the cells \<open>(398, 0)\<close> and \<open>(399, 0)\<close> to the cap 10; one transport step with
  \<open>gravityX = -0.2\<close> (which favours the right neighbour), diffusion 0.01 and no evaporation
  then moves 0.1 units from the first into the second, which ends the step with 10.1.
\<close>

theorem transport_exceeds_cap:
  "opInRange (Stamp WATER defaultColor soakBrush 398 0 1)
   \<and> opInRange (Stamp WATER defaultColor soakBrush 399 0 1)
   \<and> opInRange (Transport tiltRight)
   \<and> waterMap (run [Stamp WATER defaultColor soakBrush 398 0 1,
                     Stamp WATER defaultColor soakBrush 399 0 1,
                     Transport tiltRight] emptyGrid) 399 = 101 / 10"
proof -
  have "waterMap (updateSimulation tiltRight (stamp WATER defaultColor soakBrush 399 0 1
                    (stamp WATER defaultColor soakBrush 398 0 1 emptyGrid))) 399 = 101 / 10"
    by (rule tilted_sweep_water) (rule soaked_pair_water)
  then show ?thesis
    by (simp add: run_def brushInRange_def colorInRange_def simInRange_def soakBrush_def
        defaultColor_def tiltRight_def)
qed

theorem water_bounds_along_runs_witness:
  "0 \<le> waterMap (run [Stamp WATER defaultColor soakBrush 398 0 1,
                        Transport levelPaper] emptyGrid) 398
   \<and> waterMap (run [Stamp WATER defaultColor soakBrush 398 0 1,
                     Transport levelPaper] emptyGrid) 398 \<le> 10"
  using water_bounds_along_runs[of "[Stamp WATER defaultColor soakBrush 398 0 1, Transport levelPaper]" 398]
  by (simp add: brushInRange_def colorInRange_def simInRange_def soakBrush_def
        defaultColor_def levelPaper_def cells_def SIM_W_def SIM_H_def)

lemma dropGrid_nonNegative: "nonNegative dropGrid"
  by (simp add: nonNegative_def dropGrid_water dropGrid_def emptyGrid_def)

theorem stamp_and_transport_keep_nonnegative_witness:
  "nonNegative (stamp BRUSH defaultColor DEFAULT_BRUSH 200 150 10 dropGrid)
   \<and> nonNegative (updateSimulation levelPaper dropGrid)"
  using stamp_and_transport_keep_nonnegative[of dropGrid DEFAULT_BRUSH defaultColor 10
      levelPaper BRUSH 200 150]
  by (simp add: dropGrid_nonNegative brushInRange_def colorInRange_def simInRange_def
        DEFAULT_BRUSH_def defaultColor_def levelPaper_def)

subsection \<open>The flow rule and the boundary\<close>


lemma moveMass_updates:
  "moveMass f i n amt = (f(i := f i - amt))(n := (f(i := f i - amt)) n + amt)"
  by (auto simp: moveMass_def fun_eq_iff)

lemma wetness_update: "(\<lambda>j. if j = n then 1 else f j) = f(n := 1::real)"
  by (auto simp: fun_eq_iff)

lemma transfer_eq_spec: "transfer i n flow st = specTransfer i n flow st"
  by (simp add: transfer_def specTransfer_def Let_def moveMass_updates wetness_update)

lemma visit_eq_spec: "visit i (n, bias) st = specVisit i n bias st"
proof -
  define G where "G = (totalWater st - waterMap (fs_grid st) n) + bias * 5"
  define F where "F = min (amountToFlow st) (G * 0.1)"
  have a: "visit i (n, bias) st =
      (if amountToFlow st \<le> 0 then st
       else if G > 0 then if F > 0.001 then specTransfer i n F st else st else st)"
    by (simp only: visit_unfold gradientOf_def flowOf_def fst_conv snd_conv transfer_eq_spec G_def F_def)
  have b: "specVisit i n bias st =
      (if amountToFlow st > 0 then if G > 0 \<and> F > 0.001 then specTransfer i n F st else st else st)"
    by (simp only: specVisit_def Let_def G_def F_def)
  show ?thesis unfolding a b by auto
qed

lemma flow_pass_eq_spec:
  "fold (visit (y * SIM_W + x)) (neighbors ss x y) st = specFlow ss x y st"
  by (simp add: neighbors_def specFlow_def Let_def visit_eq_spec)

lemma visit_keeps_running_value:
  assumes "n \<noteq> i" "totalWater st = waterMap (fs_grid st) i"
  shows "totalWater (visit i (n, bias) st) = waterMap (fs_grid (visit i (n, bias) st)) i"
  using assms by (simp add: visit_unfold transfer_locals transfer_water)

lemma interior_neighbors:
  assumes "0 < x" "x < SIM_W - 1" "0 < y" "y < SIM_H - 1"
  shows "\<forall>nb \<in> set (neighbors ss x y). fst nb \<noteq> y * SIM_W + x"
  using assms by (simp add: neighbors_def idx_def Let_def SIM_W_def SIM_H_def)

lemma fold_visit_keeps_running_value:
  assumes "\<forall>nb \<in> set nbs. fst nb \<noteq> i" "totalWater st = waterMap (fs_grid st) i"
  shows "totalWater (fold (visit i) nbs st) = waterMap (fs_grid (fold (visit i) nbs st)) i"
  using assms
proof (induction nbs arbitrary: st)
  case Nil
  then show ?case by simp
next
  case (Cons nb nbs)
  then have a: "fst nb \<noteq> i" and b: "\<forall>nb \<in> set nbs. fst nb \<noteq> i" by simp_all
  have "totalWater (visit i nb st) = waterMap (fs_grid (visit i nb st)) i"
    using visit_keeps_running_value[OF a Cons.prems(2), of "snd nb"] by simp
  from Cons.IH[OF b this] show ?case by simp
qed

text \<open>
  Claim C7. The neighbour pass of a cell update processes the four candidates in the order
  right, left, down, up with the biases \<open>-gravityX\<close>, \<open>+gravityX\<close>, \<open>+gravityY\<close>,
  \<open>-gravityY\<close>, and each candidate by the described rule: the pass of the source equals
  \<open>specFlow\<close>, the rule written from the description, on every state; and a cell update is
  the skip of a dry cell, the evaporation, and that pass started with the budget
  \<open>water * diffusionSpeed\<close>. The water value the rule compares, divides by and decrements is
  the running value of the cell being processed (\<open>totalWater\<close>); for a cell none of whose
  neighbours is the cell itself it is the stored \<open>water[i]\<close> throughout the pass (lemma
  \<open>fold_visit_keeps_running_value\<close>).
\<close>

theorem flow_pass_follows_description:
  "fold (visit (y * SIM_W + x)) (neighbors ss x y) st = specFlow ss x y st
   \<and> cellStep ss y x gr =
       (let i = y * SIM_W + x;
            w1 = max 0 (waterMap gr i - evaporationRate ss)
        in if waterMap gr i \<le> 0.01 then gr
           else if w1 \<le> 0 then gr\<lparr> waterMap := (waterMap gr)(i := w1),
                                     wetnessMap := (wetnessMap gr)(i := 0) \<rparr>
           else fs_grid (specFlow ss x y
                  \<lparr> fs_grid = gr\<lparr> waterMap := (waterMap gr)(i := w1) \<rparr>,
                    amountToFlow = w1 * diffusionSpeed ss, totalWater = w1 \<rparr>))"
proof -
  have pass: "fold (visit (y * SIM_W + x)) (neighbors ss x y) s = specFlow ss x y s" for s
    unfolding neighbors_def specFlow_def Let_def by (simp add: visit_eq_spec)
  have cell: "cellStep ss y x gr =
       (let i = y * SIM_W + x;
            w1 = max 0 (waterMap gr i - evaporationRate ss)
        in if waterMap gr i \<le> 0.01 then gr
           else if w1 \<le> 0 then gr\<lparr> waterMap := (waterMap gr)(i := w1),
                                     wetnessMap := (wetnessMap gr)(i := 0) \<rparr>
           else fs_grid (specFlow ss x y
                  \<lparr> fs_grid = gr\<lparr> waterMap := (waterMap gr)(i := w1) \<rparr>,
                    amountToFlow = w1 * diffusionSpeed ss, totalWater = w1 \<rparr>))"
    unfolding cellStep_def Let_def pass by simp
  from pass[of st] cell show ?thesis by (rule conjI)
qed

lemma idx_edges:
  assumes "0 \<le> x" "x < SIM_W" "0 \<le> y" "y < SIM_H"
  shows "x = SIM_W - 1 \<longrightarrow> idx (x + 1) y = y * SIM_W + x"
    and "x = 0 \<longrightarrow> idx (x - 1) y = y * SIM_W + x"
    and "y = SIM_H - 1 \<longrightarrow> idx x (y + 1) = y * SIM_W + x"
    and "y = 0 \<longrightarrow> idx x (y - 1) = y * SIM_W + x"
  using assms by (simp_all add: idx_def Let_def SIM_W_def SIM_H_def)

lemma self_visit_arrays:
  "waterMap (fs_grid (visit i (i, bias) st)) = waterMap (fs_grid st)"
  "pigmentR (fs_grid (visit i (i, bias) st)) = pigmentR (fs_grid st)"
  "pigmentG (fs_grid (visit i (i, bias) st)) = pigmentG (fs_grid st)"
  "pigmentB (fs_grid (visit i (i, bias) st)) = pigmentB (fs_grid st)"
  by (simp_all add: visit_unfold transfer_def Let_def)

lemma self_visit_locals:
  assumes "0 < amountToFlow st" "0 < gradientOf st (i, bias)" "0.001 < flowOf st (i, bias)"
  shows "amountToFlow (visit i (i, bias) st) = amountToFlow st - flowOf st (i, bias)"
    and "totalWater (visit i (i, bias) st) = totalWater st - flowOf st (i, bias)"
  using assms by (simp_all add: visit_unfold transfer_locals)

lemma cellStep_pass:
  "cellStep ss y x gr =
     (if waterMap gr (y * SIM_W + x) \<le> 0.01 then gr
      else if totalWater (passStart ss y x gr) \<le> 0
           then (fs_grid (passStart ss y x gr))\<lparr> wetnessMap := (wetnessMap gr)(y * SIM_W + x := 0) \<rparr>
           else fs_grid (fold (visit (y * SIM_W + x)) (neighbors ss x y) (passStart ss y x gr)))"
  by (simp add: cellStep_def passStart_def Let_def)

lemma passStart_locals:
  "totalWater (passStart ss y x gr) = waterMap (fs_grid (passStart ss y x gr)) (y * SIM_W + x)"
  "amountToFlow (passStart ss y x gr) = totalWater (passStart ss y x gr) * diffusionSpeed ss"
  "totalWater (passStart ss y x gr) = max 0 (waterMap gr (y * SIM_W + x) - evaporationRate ss)"
  by (simp_all add: passStart_def Let_def)

lemma edge_table:
  assumes "0 \<le> x" "x < SIM_W" "0 \<le> y" "y < SIM_H"
  shows "x = SIM_W - 1 \<longrightarrow> neighbors ss x y ! 0 = (y * SIM_W + x, - gravityX ss)"
    and "x = 0 \<longrightarrow> neighbors ss x y ! 1 = (y * SIM_W + x, gravityX ss)"
    and "y = SIM_H - 1 \<longrightarrow> neighbors ss x y ! 2 = (y * SIM_W + x, gravityY ss)"
    and "y = 0 \<longrightarrow> neighbors ss x y ! 3 = (y * SIM_W + x, - gravityY ss)"
  using idx_edges[OF assms] by (simp_all add: neighbors_def)

lemma self_visit_spend:
  "amountToFlow (visit i (i, bias) st) =
     amountToFlow st - (if 0 < amountToFlow st \<and> 0 < gradientOf st (i, bias) \<and> 0.001 < flowOf st (i, bias)
                        then flowOf st (i, bias) else 0)"
  "totalWater (visit i (i, bias) st) =
     totalWater st - (if 0 < amountToFlow st \<and> 0 < gradientOf st (i, bias) \<and> 0.001 < flowOf st (i, bias)
                      then flowOf st (i, bias) else 0)"
  by (auto simp: visit_unfold transfer_locals)

lemma self_visit_idle:
  assumes "bias \<le> 0" "totalWater st \<le> waterMap (fs_grid st) i"
  shows "visit i (i, bias) st = st"
proof -
  have "bias * 5 \<le> 0" using assms(1) by simp
  then have "\<not> 0 < gradientOf st (i, bias)" using assms(2) by (simp add: gradientOf_def)
  then show ?thesis by (simp add: visit_unfold)
qed

lemma right_edge_first_visit:
  assumes "x = SIM_W - 1" "0 \<le> y" "y < SIM_H"
    and "0 < waterMap gr (y * SIM_W + x) - evaporationRate ss"
    and "0.001 < min ((waterMap gr (y * SIM_W + x) - evaporationRate ss) * diffusionSpeed ss)
                     (- gravityX ss * 5 * 0.1)"
  shows "amountToFlow (visit (y * SIM_W + x) (neighbors ss x y ! 0) (passStart ss y x gr))
         = (waterMap gr (y * SIM_W + x) - evaporationRate ss) * diffusionSpeed ss
           - min ((waterMap gr (y * SIM_W + x) - evaporationRate ss) * diffusionSpeed ss)
                 (- gravityX ss * 5 * 0.1)"
    and "waterMap (fs_grid (visit (y * SIM_W + x) (neighbors ss x y ! 0) (passStart ss y x gr)))
         = waterMap (fs_grid (passStart ss y x gr))"
proof -
  define i where "i = y * SIM_W + x"
  define w1 where "w1 = waterMap gr i - evaporationRate ss"
  define st0 where "st0 = passStart ss y x gr"
  have x: "0 \<le> x" "x < SIM_W" using assms(1) by (simp_all add: SIM_W_def)
  have e: "neighbors ss x y ! 0 = (i, - gravityX ss)"
    using edge_table(1)[OF x assms(2,3), of ss] assms(1) by (simp add: i_def)
  have w1: "0 < w1" using assms(4) by (simp add: w1_def i_def)
  have m: "0.001 < min (w1 * diffusionSpeed ss) (- gravityX ss * 5 * 0.1)"
    using assms(5) by (simp add: w1_def i_def)
  have l: "totalWater st0 = w1" "amountToFlow st0 = w1 * diffusionSpeed ss"
    "waterMap (fs_grid st0) i = w1"
    using w1 by (simp_all add: st0_def passStart_def Let_def i_def w1_def)
  have g: "gradientOf st0 (i, - gravityX ss) = - gravityX ss * 5"
    by (simp add: gradientOf_def l)
  have f: "flowOf st0 (i, - gravityX ss) = min (w1 * diffusionSpeed ss) (- gravityX ss * 5 * 0.1)"
    by (simp only: flowOf_def g l)
  have a: "0 < amountToFlow st0" using m by (simp add: l)
  have b: "0 < gradientOf st0 (i, - gravityX ss)" using m by (simp add: g)
  have c: "0.001 < flowOf st0 (i, - gravityX ss)" using m by (simp only: f)
  have "amountToFlow (visit i (i, - gravityX ss) st0)
        = amountToFlow st0 - flowOf st0 (i, - gravityX ss)"
    using a b c by (simp only: self_visit_spend if_True simp_thms)
  then show "amountToFlow (visit (y * SIM_W + x) (neighbors ss x y ! 0) (passStart ss y x gr))
         = (waterMap gr (y * SIM_W + x) - evaporationRate ss) * diffusionSpeed ss
           - min ((waterMap gr (y * SIM_W + x) - evaporationRate ss) * diffusionSpeed ss)
                 (- gravityX ss * 5 * 0.1)"
    unfolding e[unfolded i_def] f l
    by (simp only: i_def[symmetric] st0_def[symmetric] e f l w1_def)
  show "waterMap (fs_grid (visit (y * SIM_W + x) (neighbors ss x y ! 0) (passStart ss y x gr)))
         = waterMap (fs_grid (passStart ss y x gr))"
    unfolding i_def[symmetric] e by (rule self_visit_arrays)
qed

text \<open>
  Claim C9, as amended. For a cell \<open>i\<close> on the boundary of the grid the neighbour coordinate
  that falls outside clamps back to the cell's own index, so the neighbour table of the cell
  holds \<open>i\<close> itself at that position (first entry on the right edge, second on the left,
  third on the bottom, fourth on the top), and the cell update of the transport step runs
  the callback over exactly that table, starting from \<open>passStart\<close>. A visit of the cell to
  itself never changes the stored water or pigment arrays; it lowers the budget and the
  running water value by the computed flow exactly when its transfer fires (budget above 0,
  gradient \<open>(running value - stored water) + bias * 5\<close> above 0, flow above 0.001), and by
  nothing otherwise: with a bias of at most 0 toward the clamped side, as on level paper,
  the self-visit spends nothing. On the right edge the self-visit is the first of the pass,
  and it spends \<open>min(budget, -gravityX * 0.5)\<close> whenever that exceeds 0.001. Every
  neighbour index is a cell of the grid and the pass leaves the totals of water and pigment
  over the grid unchanged: no mass leaves the grid.
\<close>

theorem edge_cell_self_transfer:
  assumes "0 \<le> x" and "x < SIM_W" and "0 \<le> y" and "y < SIM_H" and "i = y * SIM_W + x"
  shows "(x = SIM_W - 1 \<longrightarrow> idx (x + 1) y = i \<and> neighbors ss x y ! 0 = (i, - gravityX ss))
       \<and> (x = 0 \<longrightarrow> idx (x - 1) y = i \<and> neighbors ss x y ! 1 = (i, gravityX ss))
       \<and> (y = SIM_H - 1 \<longrightarrow> idx x (y + 1) = i \<and> neighbors ss x y ! 2 = (i, gravityY ss))
       \<and> (y = 0 \<longrightarrow> idx x (y - 1) = i \<and> neighbors ss x y ! 3 = (i, - gravityY ss))
       \<and> cellStep ss y x gr =
           (if waterMap gr i \<le> 0.01 then gr
            else if totalWater (passStart ss y x gr) \<le> 0
                 then (fs_grid (passStart ss y x gr))\<lparr> wetnessMap := (wetnessMap gr)(i := 0) \<rparr>
                 else fs_grid (fold (visit i) (neighbors ss x y) (passStart ss y x gr)))
       \<and> totalWater (passStart ss y x gr) = waterMap (fs_grid (passStart ss y x gr)) i
       \<and> amountToFlow (passStart ss y x gr) = totalWater (passStart ss y x gr) * diffusionSpeed ss
       \<and> waterMap (fs_grid (visit i (i, bias) st)) = waterMap (fs_grid st)
       \<and> pigmentR (fs_grid (visit i (i, bias) st)) = pigmentR (fs_grid st)
       \<and> pigmentG (fs_grid (visit i (i, bias) st)) = pigmentG (fs_grid st)
       \<and> pigmentB (fs_grid (visit i (i, bias) st)) = pigmentB (fs_grid st)
       \<and> gradientOf st (i, bias) = (totalWater st - waterMap (fs_grid st) i) + bias * 5
       \<and> flowOf st (i, bias) = min (amountToFlow st) (gradientOf st (i, bias) * 0.1)
       \<and> amountToFlow (visit i (i, bias) st) =
           amountToFlow st - (if 0 < amountToFlow st \<and> 0 < gradientOf st (i, bias)
                                 \<and> 0.001 < flowOf st (i, bias)
                              then flowOf st (i, bias) else 0)
       \<and> totalWater (visit i (i, bias) st) =
           totalWater st - (if 0 < amountToFlow st \<and> 0 < gradientOf st (i, bias)
                               \<and> 0.001 < flowOf st (i, bias)
                            then flowOf st (i, bias) else 0)
       \<and> (bias \<le> 0 \<and> totalWater st \<le> waterMap (fs_grid st) i \<longrightarrow> visit i (i, bias) st = st)
       \<and> (x = SIM_W - 1 \<and> 0 < waterMap gr i - evaporationRate ss
            \<and> 0.001 < min ((waterMap gr i - evaporationRate ss) * diffusionSpeed ss)
                           (- gravityX ss * 5 * 0.1) \<longrightarrow>
            amountToFlow (visit i (neighbors ss x y ! 0) (passStart ss y x gr))
              = (waterMap gr i - evaporationRate ss) * diffusionSpeed ss
                - min ((waterMap gr i - evaporationRate ss) * diffusionSpeed ss)
                      (- gravityX ss * 5 * 0.1)
            \<and> waterMap (fs_grid (visit i (neighbors ss x y ! 0) (passStart ss y x gr)))
              = waterMap (fs_grid (passStart ss y x gr)))
       \<and> (\<forall>nb \<in> set (neighbors ss x y). fst nb \<in> cells)
       \<and> gridSum (waterMap (fs_grid (fold (visit i) (neighbors ss x y) st)))
           = gridSum (waterMap (fs_grid st))
       \<and> gridSum (pigmentR (fs_grid (fold (visit i) (neighbors ss x y) st)))
           = gridSum (pigmentR (fs_grid st))
       \<and> gridSum (pigmentG (fs_grid (fold (visit i) (neighbors ss x y) st)))
           = gridSum (pigmentG (fs_grid st))
       \<and> gridSum (pigmentB (fs_grid (fold (visit i) (neighbors ss x y) st)))
           = gridSum (pigmentB (fs_grid st))"
proof -
  note in_grid = assms(1-4)
  have ic: "i \<in> cells" unfolding assms(5) by (rule index_in_cells[OF in_grid])
  have tab: "(x = SIM_W - 1 \<longrightarrow> idx (x + 1) y = i \<and> neighbors ss x y ! 0 = (i, - gravityX ss))"
    "(x = 0 \<longrightarrow> idx (x - 1) y = i \<and> neighbors ss x y ! 1 = (i, gravityX ss))"
    "(y = SIM_H - 1 \<longrightarrow> idx x (y + 1) = i \<and> neighbors ss x y ! 2 = (i, gravityY ss))"
    "(y = 0 \<longrightarrow> idx x (y - 1) = i \<and> neighbors ss x y ! 3 = (i, - gravityY ss))"
    using idx_edges[OF in_grid] edge_table[OF in_grid, of ss] unfolding assms(5) by blast+
  have step: "cellStep ss y x gr =
           (if waterMap gr i \<le> 0.01 then gr
            else if totalWater (passStart ss y x gr) \<le> 0
                 then (fs_grid (passStart ss y x gr))\<lparr> wetnessMap := (wetnessMap gr)(i := 0) \<rparr>
                 else fs_grid (fold (visit i) (neighbors ss x y) (passStart ss y x gr)))"
    unfolding assms(5) by (rule cellStep_pass)
  have start: "totalWater (passStart ss y x gr) = waterMap (fs_grid (passStart ss y x gr)) i"
    "amountToFlow (passStart ss y x gr) = totalWater (passStart ss y x gr) * diffusionSpeed ss"
    unfolding assms(5) by (rule passStart_locals)+
  have gf: "gradientOf st (i, bias) = (totalWater st - waterMap (fs_grid st) i) + bias * 5"
    "flowOf st (i, bias) = min (amountToFlow st) (gradientOf st (i, bias) * 0.1)"
    by (simp_all add: gradientOf_def flowOf_def)
  have idle: "bias \<le> 0 \<and> totalWater st \<le> waterMap (fs_grid st) i \<longrightarrow> visit i (i, bias) st = st"
    using self_visit_idle[of bias st i] by blast
  have right: "x = SIM_W - 1 \<and> 0 < waterMap gr i - evaporationRate ss
            \<and> 0.001 < min ((waterMap gr i - evaporationRate ss) * diffusionSpeed ss)
                           (- gravityX ss * 5 * 0.1) \<longrightarrow>
            amountToFlow (visit i (neighbors ss x y ! 0) (passStart ss y x gr))
              = (waterMap gr i - evaporationRate ss) * diffusionSpeed ss
                - min ((waterMap gr i - evaporationRate ss) * diffusionSpeed ss)
                      (- gravityX ss * 5 * 0.1)
            \<and> waterMap (fs_grid (visit i (neighbors ss x y ! 0) (passStart ss y x gr)))
              = waterMap (fs_grid (passStart ss y x gr))"
    using right_edge_first_visit[of x y gr ss] in_grid(3,4) unfolding assms(5) by blast
  note sums = fold_visit_sums[OF ic neighbors_in_cells, of ss x y st]
  show ?thesis
    using tab step start gf idle right sums neighbors_in_cells[of ss x y]
    by (simp only: self_visit_arrays self_visit_spend simp_thms)
qed

lemma uniform_corner_start:
  "totalWater (passStart tiltRight 0 399 (uniformGrid 10 1 40 150 250)) = 10"
  "amountToFlow (passStart tiltRight 0 399 (uniformGrid 10 1 40 150 250)) = 1 / 10"
  "waterMap (fs_grid (passStart tiltRight 0 399 (uniformGrid 10 1 40 150 250))) 399 = 10"
  by (simp_all add: passStart_def Let_def tiltRight_def uniformGrid_def SIM_W_def)

theorem edge_cell_self_transfer_witness:
  "idx (399 + 1) 0 = 399
   \<and> neighbors tiltRight 399 0 ! 0 = (399, - gravityX tiltRight)
   \<and> idx 399 (0 - 1) = 399
   \<and> neighbors tiltRight 399 0 ! 3 = (399, - gravityY tiltRight)
   \<and> cellStep tiltRight 0 399 (uniformGrid 10 1 40 150 250)
       = fs_grid (fold (visit 399) (neighbors tiltRight 399 0)
                    (passStart tiltRight 0 399 (uniformGrid 10 1 40 150 250)))
   \<and> amountToFlow (passStart tiltRight 0 399 (uniformGrid 10 1 40 150 250)) = 1 / 10
   \<and> amountToFlow (visit 399 (neighbors tiltRight 399 0 ! 0)
                      (passStart tiltRight 0 399 (uniformGrid 10 1 40 150 250))) = 0
   \<and> waterMap (fs_grid (visit 399 (neighbors tiltRight 399 0 ! 0)
                          (passStart tiltRight 0 399 (uniformGrid 10 1 40 150 250))))
       = waterMap (fs_grid (passStart tiltRight 0 399 (uniformGrid 10 1 40 150 250)))"
proof -
  have w: "waterMap (uniformGrid 10 1 40 150 250) 399 = 10" by (simp add: uniformGrid_def)
  have s: "evaporationRate tiltRight = 0" "diffusionSpeed tiltRight = 1 / 100"
    "gravityX tiltRight = - (1 / 5)" "gravityY tiltRight = 0"
    by (simp_all add: tiltRight_def)
  show ?thesis
    using edge_cell_self_transfer[of 399 0 399 tiltRight "uniformGrid 10 1 40 150 250"]
    by (simp add: SIM_W_def SIM_H_def w s uniform_corner_start)
qed

lemma cornerDrop_start:
  "passStart levelPaper 0 399 cornerDrop =
     \<lparr> fs_grid = cornerDrop\<lparr> waterMap := (waterMap cornerDrop)(399 := 199 / 20) \<rparr>,
       amountToFlow = 199 / 200, totalWater = 199 / 20 \<rparr>"
  by (simp add: passStart_def Let_def levelPaper_def cornerDrop_def emptyGrid_def SIM_W_def)

lemma cornerDrop_table:
  "neighbors levelPaper 399 0 = [(399, 0), (398, 0), (799, 0), (399, 0)]"
  by (simp add: neighbors_def idx_def Let_def SIM_W_def SIM_H_def levelPaper_def)

lemma cornerDrop_water: "waterMap cornerDrop j = (if j = 399 then 10 else 0)"
  by (simp add: cornerDrop_def emptyGrid_def SIM_W_def)

lemma cornerDrop_self_visit:
  "visit 399 (399, 0) (passStart levelPaper 0 399 cornerDrop) = passStart levelPaper 0 399 cornerDrop"
  by (rule self_visit_idle) (simp_all add: cornerDrop_start)

lemma cornerDrop_left_visit:
  "visit 399 (398, 0) (passStart levelPaper 0 399 cornerDrop)
   = transfer 399 398 (199 / 200) (passStart levelPaper 0 399 cornerDrop)"
  by (simp add: visit_unfold gradientOf_def flowOf_def cornerDrop_start cornerDrop_water)

lemma cornerDrop_step:
  "cellStep levelPaper 0 399 cornerDrop
   = fs_grid (transfer 399 398 (199 / 200) (passStart levelPaper 0 399 cornerDrop))"
proof -
  have "cellStep levelPaper 0 399 cornerDrop
        = fs_grid (fold (visit 399) (neighbors levelPaper 399 0) (passStart levelPaper 0 399 cornerDrop))"
    using cellStep_pass[of levelPaper 0 399 cornerDrop]
    by (simp add: SIM_W_def cornerDrop_water cornerDrop_start)
  also have "fold (visit 399) (neighbors levelPaper 399 0) (passStart levelPaper 0 399 cornerDrop)
        = fold (visit 399) [(799, 0), (399, 0)]
            (transfer 399 398 (199 / 200) (passStart levelPaper 0 399 cornerDrop))"
    unfolding cornerDrop_table by (simp add: cornerDrop_self_visit cornerDrop_left_visit)
  also have "\<dots> = transfer 399 398 (199 / 200) (passStart levelPaper 0 399 cornerDrop)"
    by (rule fold_visit_spent) (simp add: transfer_locals cornerDrop_start)
  finally show ?thesis .
qed

text \<open>
  The last clause of claim C9 fails as a statement about every edge cell. On level paper
  the corner cell \<open>(399, 0)\<close> holding 10 units starts its pass with the budget 0.995; its
  first neighbour entry is the cell itself with bias 0, the visit to it changes nothing, and
  the whole budget of 0.995 arrives in the left neighbour \<open>(398, 0)\<close>: nothing is spent on a
  self-transfer.
\<close>

theorem level_paper_edge_cell_spends_nothing_on_itself:
  "neighbors levelPaper 399 0 ! 0 = (0 * SIM_W + 399, 0)
   \<and> amountToFlow (passStart levelPaper 0 399 cornerDrop) = 199 / 200
   \<and> visit (0 * SIM_W + 399) (neighbors levelPaper 399 0 ! 0) (passStart levelPaper 0 399 cornerDrop)
       = passStart levelPaper 0 399 cornerDrop
   \<and> waterMap (cellStep levelPaper 0 399 cornerDrop) (0 * SIM_W + 398) = 199 / 200
   \<and> waterMap (cellStep levelPaper 0 399 cornerDrop) (0 * SIM_W + 399) = 1791 / 200"
proof -
  have a: "neighbors levelPaper 399 0 ! 0 = (399, 0)" by (simp add: cornerDrop_table)
  have b: "amountToFlow (passStart levelPaper 0 399 cornerDrop) = 199 / 200"
    by (simp add: cornerDrop_start)
  have c: "waterMap (cellStep levelPaper 0 399 cornerDrop) 398 = 199 / 200"
    by (simp add: cornerDrop_step transfer_water cornerDrop_start cornerDrop_water)
  have d: "waterMap (cellStep levelPaper 0 399 cornerDrop) 399 = 1791 / 200"
    by (simp add: cornerDrop_step transfer_water cornerDrop_start)
  show ?thesis using a b c d cornerDrop_self_visit by (simp add: SIM_W_def)
qed

subsection \<open>From the pointer to the stamp\<close>


lemma simRadius_ge_1: "1 \<le> max 1 ((brushSize bs / width) * real_of_int SIM_W)"
  by simp

lemma applyBrush_unmounted: "applyBrush tool color bs width None x y gr = gr"
  by (simp add: applyBrush_def)

lemma applyBrush_center:
  assumes "0 < rect_width rc" "0 < rect_height rc"
  shows "applyBrush tool color bs width (Some rc)
           (rect_left rc + rect_width rc / 2) (rect_top rc + rect_height rc / 2) gr
         = stamp tool color bs 200 150 (max 1 ((brushSize bs / width) * 400)) gr"
  using assms by (simp add: applyBrush_def Let_def SIM_W_def SIM_H_def)

lemma applyBrush_default_center:
  assumes "0 < rect_width rc" "0 < rect_height rc"
  shows "applyBrush tool color DEFAULT_BRUSH 800 (Some rc)
           (rect_left rc + rect_width rc / 2) (rect_top rc + rect_height rc / 2) gr
         = stamp tool color DEFAULT_BRUSH 200 150 10 gr"
  using applyBrush_center[OF assms, of tool color DEFAULT_BRUSH 800 gr]
  by (simp add: DEFAULT_BRUSH_def)

lemma stamp_wets_covered_cells:
  assumes "0 \<le> cx" "cx < SIM_W" "covered simX simY simRadius cy cx" "tool = BRUSH \<or> tool = WATER"
  shows "wetnessMap (stamp tool color bs simX simY simRadius gr) (cy * SIM_W + cx) = 1"
  using stamp_cellOf[OF assms(1,2), of tool color bs simX simY simRadius gr cy] assms(3,4)
  by (auto simp: cellOf_def stampRule_def)

lemma zero_pressure_stamp:
  assumes "0 \<le> cx" "cx < SIM_W" "covered simX simY simRadius cy cx" "tool = BRUSH \<or> tool = WATER"
    and "pressure bs = 0"
  shows "waterMap (stamp tool color bs simX simY simRadius gr) (cy * SIM_W + cx)
           = min 10 (waterMap gr (cy * SIM_W + cx))"
    and "pigmentR (stamp tool color bs simX simY simRadius gr) (cy * SIM_W + cx)
           = pigmentR gr (cy * SIM_W + cx)"
    and "pigmentG (stamp tool color bs simX simY simRadius gr) (cy * SIM_W + cx)
           = pigmentG gr (cy * SIM_W + cx)"
    and "pigmentB (stamp tool color bs simX simY simRadius gr) (cy * SIM_W + cx)
           = pigmentB gr (cy * SIM_W + cx)"
  using stamp_cellOf[OF assms(1,2), of tool color bs simX simY simRadius gr cy] assms(3,4,5)
  by (auto simp: cellOf_def stampRule_def)

lemma covered_misses_far_edge:
  "\<not> covered simX simY (real_of_int k) simY (simX + k)"
  by (simp add: covered_def)

end
